theory Spec2Isabelle
  imports Main "HOL-Library.Char_ord" "HOL-Library.List_Lexorder" "HOL-Library.Sublist"
begin

section \<open>The Alvys SDK: access-token provider and request client\<close>

text \<open>
  The TypeScript source has two parts: \<open>createAlvysAccessTokenProvider\<close>, a closure over
  a cached credential and an in-flight refresh promise, and \<open>createAlvysClient\<close>, which
  composes the headers of each request and delegates to the openapi-fetch client.

  Conventions of the embedding.
  \<^item> A value of type \<open>string | undefined\<close> is a \<open>string option\<close>; JavaScript truthiness of
    such a value is \<open>truthy\<close> (defined and not the empty string).
  \<^item> A JavaScript number is a double. The operations that the source applies to numbers
    are the fields of an \<open>arithmetic\<close>, and the lifetime of a credential is defined for
    every arithmetic. The provider's clock, lifetimes and expiry times are integers: its
    arithmetic is that of the integers, which is the arithmetic of doubles as long as every
    operand and result is an integer of magnitude up to \<open>2^53\<close>.
  \<^item> A string is the list of its code units, each below 256.
  \<^item> An \<open>async\<close> function is a state transformer on an abstract world \<open>'w\<close> (the clock,
    the process environment, whatever the injected collaborators depend on) that returns
    either the value it resolves to or the error it rejects with.
  \<^item> Every \<open>throw new Error(...)\<close> of the source is a constructor of \<open>error\<close>.
\<close>

subsection \<open>Errors, effects, value-or-factory\<close>

datatype error =
    FetchRequired
      \<comment> \<open>'A fetch implementation is required to retrieve Alvys access tokens. ...'\<close>
  | MissingCredentials
      \<comment> \<open>'Missing Alvys client credentials. ...'\<close>
  | TokenRequestFailed nat string string
      \<comment> \<open>'Failed to retrieve Alvys access token (status statusText): errorText', trimmed;
          the arguments are \<open>response.status\<close>, \<open>response.statusText\<close> and \<open>errorText\<close>\<close>
  | NoAccessToken
      \<comment> \<open>'The Alvys token endpoint did not return an access_token.'\<close>
  | EndpointRequired
      \<comment> \<open>'An endpoint URL is required.'\<close>
  | Thrown string
      \<comment> \<open>an exception raised by an injected collaborator: a factory, fetch, a body reader\<close>
  | TypeError
      \<comment> \<open>thrown by the platform's \<open>Headers.set\<close> for a name or a value that is not valid\<close>

type_synonym ('w, 'a) effect = "'w \<Rightarrow> (error + 'a) \<times> 'w"

text \<open>\<open>ValueOrFactory<T> = T | (() => MaybePromise<T>)\<close>; an absent field is \<open>None\<close>.\<close>

datatype ('w, 'a) ValueOrFactory =
    Value 'a
  | Factory "'w \<Rightarrow> (error + 'a option) \<times> 'w"

fun resolveValue :: "('w, 'a) ValueOrFactory option \<Rightarrow> ('w, 'a option) effect" where
  "resolveValue None w = (Inr None, w)"
| "resolveValue (Some (Value v)) w = (Inr (Some v), w)"
| "resolveValue (Some (Factory f)) w = f w"

definition truthy :: "string option \<Rightarrow> bool" where
  "truthy v = (case v of None \<Rightarrow> False | Some s \<Rightarrow> s \<noteq> [])"

text \<open>The nullish-coalescing operator \<open>a ?? b\<close>.\<close>

definition nullish :: "'a option \<Rightarrow> 'a option \<Rightarrow> 'a option" where
  "nullish a b = (case a of Some x \<Rightarrow> Some x | None \<Rightarrow> b)"

subsection \<open>The platform: clock and process environment\<close>

text \<open>
  \<open>now\<close> is \<open>Date.now()\<close>; \<open>processEnv\<close> is \<open>process.env\<close>, \<open>None\<close> where there is no
  \<open>process\<close> or no \<open>process.env\<close>.
\<close>

record 'w platform =
  now :: "'w \<Rightarrow> int"
  processEnv :: "'w \<Rightarrow> (string \<rightharpoonup> string) option"

definition getEnv :: "'w platform \<Rightarrow> 'w \<Rightarrow> string \<Rightarrow> string option" where
  "getEnv C w key = (case processEnv C w of None \<Rightarrow> None | Some env \<Rightarrow> env key)"

subsection \<open>Numbers\<close>

text \<open>
  What the source does with numbers: it writes integer literals, multiplies, subtracts,
  adds, takes \<open>Math.max\<close> and compares with \<open>>\<close>. An \<open>arithmetic\<close> gives these operations
  on a type of numbers. Numbers are taken up to \<open>===\<close>, so that \<open>-0\<close> and \<open>0\<close> are one
  number.
\<close>

record 'n arithmetic =
  n_lit :: "int \<Rightarrow> 'n"
  n_mul :: "'n \<Rightarrow> 'n \<Rightarrow> 'n"
  n_sub :: "'n \<Rightarrow> 'n \<Rightarrow> 'n"
  n_add :: "'n \<Rightarrow> 'n \<Rightarrow> 'n"
  n_max :: "'n \<Rightarrow> 'n \<Rightarrow> 'n"
  n_gt :: "'n \<Rightarrow> 'n \<Rightarrow> bool"

text \<open>
  The arithmetic of the integers, and what makes it the arithmetic of doubles on a range:
  a double represents every integer of magnitude up to \<open>2^53\<close>, and an operation on such
  integers whose exact result is one of them yields that result.
\<close>

definition integers :: "int arithmetic" where
  "integers =
     \<lparr> n_lit = (\<lambda>n. n), n_mul = (\<lambda>a b. a * b), n_sub = (\<lambda>a b. a - b), n_add = (\<lambda>a b. a + b),
       n_max = (\<lambda>a b. max a b), n_gt = (\<lambda>a b. b < a) \<rparr>"

definition safe :: "int \<Rightarrow> bool" where
  "safe n = (- (2 ^ 53) \<le> n \<and> n \<le> 2 ^ 53)"

definition integer_exact :: "'n arithmetic \<Rightarrow> bool" where
  "integer_exact A =
     (\<forall>a b. safe a \<and> safe b \<longrightarrow>
        (safe (a * b) \<longrightarrow> n_mul A (n_lit A a) (n_lit A b) = n_lit A (a * b)) \<and>
        (safe (a - b) \<longrightarrow> n_sub A (n_lit A a) (n_lit A b) = n_lit A (a - b)) \<and>
        (safe (a + b) \<longrightarrow> n_add A (n_lit A a) (n_lit A b) = n_lit A (a + b)) \<and>
        n_max A (n_lit A a) (n_lit A b) = n_lit A (max a b) \<and>
        n_gt A (n_lit A a) (n_lit A b) = (b < a))"

subsection \<open>Token endpoint: requests and responses\<close>

definition AUTH_TOKEN_URL :: string where
  "AUTH_TOKEN_URL = ''https://auth.alvys.com/oauth/token''"

definition PUBLIC_API_AUDIENCE :: string where
  "PUBLIC_API_AUDIENCE = ''https://api.alvys.com/public/''"

definition TOKEN_DEFAULT_EXPIRES_IN_SECONDS :: "'n arithmetic \<Rightarrow> 'n" where
  "TOKEN_DEFAULT_EXPIRES_IN_SECONDS A = n_mul A (n_lit A 60) (n_lit A 60)"

definition TOKEN_EXPIRATION_BUFFER_MS :: "'n arithmetic \<Rightarrow> 'n" where
  "TOKEN_EXPIRATION_BUFFER_MS A = n_lit A 60000"

text \<open>The JSON body of the grant request; \<open>pl_scope\<close> is absent unless a scope is configured.\<close>

record payload =
  client_id :: string
  client_secret :: string
  pl_audience :: string
  grant_type :: string
  pl_scope :: "string option"

text \<open>The arguments of one call of the transport: the URL and the \<open>init\<close> object.\<close>

record request =
  url :: string
  http_method :: string
  content_type :: string
  body :: payload

text \<open>
  \<open>TokenEndpointResponse\<close>. \<open>expires_in\<close> is \<open>None\<close> when the field is absent or is not
  a number, and an integer number of seconds otherwise; \<open>token_type\<close> and \<open>scope\<close> are
  never read and are left out.
\<close>

record TokenEndpointResponse =
  access_token :: "string option"
  expires_in :: "int option"

text \<open>
  What the provider reads of a \<open>Response\<close>: \<open>status\<close>, \<open>statusText\<close>, and what
  \<open>response.text()\<close> and \<open>response.json()\<close> settle with. \<open>response.ok\<close> is, by the Fetch
  standard, true for the statuses 200 to 299.
\<close>

record response =
  status :: nat
  statusText :: string
  body_text :: "error + string"
  body_json :: "error + TokenEndpointResponse"

definition response_ok :: "response \<Rightarrow> bool" where
  "response_ok r = (200 \<le> status r \<and> status r \<le> 299)"

type_synonym 'w fetch_fn = "request \<Rightarrow> ('w, response) effect"

subsection \<open>The provider's options and closure\<close>

datatype scope_option = ScopeString string | ScopeArray "string list"

record 'w provider_options =
  clientId :: "('w, string) ValueOrFactory option"
  clientSecret :: "('w, string) ValueOrFactory option"
  audience :: "string option"
  scope :: "scope_option option"
  fetch :: "'w fetch_fn option"
  fallbackToken :: "('w, string) ValueOrFactory option"
  expirationBufferMs :: "int option"

text \<open>\<open>Array.prototype.join(' ')\<close>.\<close>

fun join_space :: "string list \<Rightarrow> string" where
  "join_space [] = []"
| "join_space [x] = x"
| "join_space (x # y # ys) = x @ '' '' @ join_space (y # ys)"

text \<open>
  The four constants that \<open>createAlvysAccessTokenProvider\<close> computes once, when the provider
  is built (\<open>globalFetch\<close> is \<open>globalThis.fetch\<close> at that moment). The closure also keeps the
  reference to \<open>options\<close>, whose \<open>clientId\<close>, \<open>clientSecret\<close> and \<open>fallbackToken\<close> are read on
  each call: the functions below take the options object as it is at the time of the call.
\<close>

record 'w provider =
  fetchImpl :: "'w fetch_fn option"
  p_audience :: string
  p_scope :: "string option"
  p_expirationBufferMs :: int

definition createAlvysAccessTokenProvider ::
  "'w provider_options \<Rightarrow> 'w fetch_fn option \<Rightarrow> 'w provider" where
  "createAlvysAccessTokenProvider options globalFetch =
     \<lparr> fetchImpl = nullish (fetch options) globalFetch,
       p_audience = (case audience options of Some a \<Rightarrow> a | None \<Rightarrow> PUBLIC_API_AUDIENCE),
       p_scope = (case scope options of
                    None \<Rightarrow> None
                  | Some (ScopeArray xs) \<Rightarrow> Some (join_space xs)
                  | Some (ScopeString s) \<Rightarrow> Some s),
       p_expirationBufferMs =
         (case expirationBufferMs options of
            Some b \<Rightarrow> b
          | None \<Rightarrow> TOKEN_EXPIRATION_BUFFER_MS integers) \<rparr>"

text \<open>
  The two variables of the closure, \<open>cache\<close> and \<open>inFlight\<close>, and a ghost field: the
  requests handed to the transport so far, newest first. \<open>'p\<close> is what stands for a
  promise: \<open>unit\<close> where one invocation runs alone, the number of the refresh task where
  invocations interleave.
\<close>

record TokenCacheEntry =
  token :: string
  expiresAt :: int

record 'p provider_state =
  cache :: "TokenCacheEntry option"
  inFlight :: "'p option"
  sent :: "request list"

definition initial_state :: "'p provider_state" where
  "initial_state = \<lparr> cache = None, inFlight = None, sent = [] \<rparr>"

subsection \<open>The provider's functions\<close>

definition resolveFallbackToken ::
  "'w platform \<Rightarrow> 'w provider_options \<Rightarrow> ('w, string option) effect" where
  "resolveFallbackToken C options w =
     (case resolveValue (fallbackToken options) w of
        (Inl e, w') \<Rightarrow> (Inl e, w')
      | (Inr v, w') \<Rightarrow> (Inr (nullish v (getEnv C w' ''ALVYS_TOKEN'')), w'))"

definition resolveClientId ::
  "'w platform \<Rightarrow> 'w provider_options \<Rightarrow> ('w, string option) effect" where
  "resolveClientId C options w =
     (case resolveValue (clientId options) w of
        (Inl e, w') \<Rightarrow> (Inl e, w')
      | (Inr v, w') \<Rightarrow> (Inr (nullish v (getEnv C w' ''ALVYS_CLIENT_ID'')), w'))"

definition resolveClientSecret ::
  "'w platform \<Rightarrow> 'w provider_options \<Rightarrow> ('w, string option) effect" where
  "resolveClientSecret C options w =
     (case resolveValue (clientSecret options) w of
        (Inl e, w') \<Rightarrow> (Inl e, w')
      | (Inr v, w') \<Rightarrow> (Inr (nullish v (getEnv C w' ''ALVYS_CLIENT_SECRET'')), w'))"

text \<open>
  \<open>await Promise.all([resolveClientId(), resolveClientSecret()])\<close>: both are started, the
  result is the pair, or the rejection of one of them.
\<close>

definition resolveCredentials ::
  "'w platform \<Rightarrow> 'w provider_options \<Rightarrow> ('w, string option \<times> string option) effect" where
  "resolveCredentials C options w =
     (case resolveClientId C options w of
        (r1, w1) \<Rightarrow>
          (case resolveClientSecret C options w1 of
             (r2, w2) \<Rightarrow>
               (case r1 of
                  Inl e \<Rightarrow> (Inl e, w2)
                | Inr cid \<Rightarrow>
                    (case r2 of
                       Inl e \<Rightarrow> (Inl e, w2)
                     | Inr csec \<Rightarrow> (Inr (cid, csec), w2)))))"

text \<open>The payload and the \<open>init\<close> of the POST (lines "const payload" to "fetchImpl(...)").\<close>

definition buildRequest :: "'w provider \<Rightarrow> string \<Rightarrow> string \<Rightarrow> request" where
  "buildRequest P cid csec =
     \<lparr> url = AUTH_TOKEN_URL,
       http_method = ''POST'',
       content_type = ''application/json'',
       body = \<lparr> client_id = cid,
                client_secret = csec,
                pl_audience = p_audience P,
                grant_type = ''client_credentials'',
                pl_scope = (if truthy (p_scope P) then p_scope P else None) \<rparr> \<rparr>"

text \<open>
  \<open>requestToken\<close> up to the call of the transport: the credentials are resolved and
  checked, and the request is built.
\<close>

definition prepareRequest ::
  "'w platform \<Rightarrow> 'w provider \<Rightarrow> 'w provider_options \<Rightarrow> ('w, request) effect" where
  "prepareRequest C P options w =
     (case resolveCredentials C options w of
        (Inl e, w') \<Rightarrow> (Inl e, w')
      | (Inr (cid, csec), w') \<Rightarrow>
          (if \<not> truthy cid \<or> \<not> truthy csec then (Inl MissingCredentials, w')
           else (Inr (buildRequest P (the cid) (the csec)), w')))"

text \<open>
  The two constants \<open>expiresInSeconds\<close> and \<open>ttlMs\<close> of \<open>requestToken\<close>, in any arithmetic:
  \<open>e\<close> is \<open>data.expires_in\<close> if that is a number, \<open>buffer\<close> is the closure's
  \<open>expirationBufferMs\<close>.
\<close>

definition expiresInSeconds :: "'n arithmetic \<Rightarrow> 'n option \<Rightarrow> 'n" where
  "expiresInSeconds A e =
     (case e of
        Some n \<Rightarrow> (if n_gt A n (n_lit A 0) then n else TOKEN_DEFAULT_EXPIRES_IN_SECONDS A)
      | None \<Rightarrow> TOKEN_DEFAULT_EXPIRES_IN_SECONDS A)"

definition ttlMs :: "'n arithmetic \<Rightarrow> 'n \<Rightarrow> 'n option \<Rightarrow> 'n" where
  "ttlMs A buffer e =
     n_max A (n_lit A 5000) (n_sub A (n_mul A (expiresInSeconds A e) (n_lit A 1000)) buffer)"

text \<open>
  \<open>requestToken\<close> from the response on: the credential to store (whose token is the value
  returned), or the error thrown. \<open>t\<close> is \<open>Date.now()\<close> when the credential is built.
\<close>

definition readResponse :: "'w provider \<Rightarrow> int \<Rightarrow> response \<Rightarrow> error + TokenCacheEntry" where
  "readResponse P t resp =
     (if \<not> response_ok resp then
        Inl (TokenRequestFailed (status resp) (statusText resp)
               (case body_text resp of Inl _ \<Rightarrow> ''<no body>'' | Inr s \<Rightarrow> s))
      else
        (case body_json resp of
           Inl e \<Rightarrow> Inl e
         | Inr data \<Rightarrow>
             (if \<not> truthy (access_token data) then Inl NoAccessToken
              else Inr \<lparr> token = the (access_token data),
                         expiresAt = n_add integers t
                           (ttlMs integers (p_expirationBufferMs P) (expires_in data)) \<rparr>)))"

definition requestToken ::
  "'w platform \<Rightarrow> 'w provider \<Rightarrow> 'w provider_options \<Rightarrow>
   'p provider_state \<times> 'w \<Rightarrow> (error + string) \<times> 'p provider_state \<times> 'w" where
  "requestToken C P options sw =
     (case sw of (st, w) \<Rightarrow>
       (case fetchImpl P of
          None \<Rightarrow> (Inl FetchRequired, st, w)
        | Some fetchFn \<Rightarrow>
            (case prepareRequest C P options w of
               (Inl e, w1) \<Rightarrow> (Inl e, st, w1)
             | (Inr req, w1) \<Rightarrow>
                 (case fetchFn req w1 of
                    (Inl e, w2) \<Rightarrow> (Inl e, st\<lparr>sent := req # sent st\<rparr>, w2)
                  | (Inr resp, w2) \<Rightarrow>
                      (case readResponse P (now C w2) resp of
                         Inl e \<Rightarrow> (Inl e, st\<lparr>sent := req # sent st\<rparr>, w2)
                       | Inr entry \<Rightarrow>
                           (Inr (token entry),
                            st\<lparr>sent := req # sent st, cache := Some entry\<rparr>, w2))))))"

definition getCachedToken :: "'p provider_state \<Rightarrow> int \<Rightarrow> string option" where
  "getCachedToken st t =
     (case cache st of
        Some c \<Rightarrow> (if expiresAt c > t then Some (token c) else None)
      | None \<Rightarrow> None)"

text \<open>
  The function that \<open>createAlvysAccessTokenProvider\<close> returns, run from its call to its
  settlement with no other invocation interleaved. The result is \<open>None\<close> where the call
  awaits a promise that another invocation stored in \<open>inFlight\<close>: alone, it does not settle.
\<close>

definition getToken ::
  "'w platform \<Rightarrow> 'w provider \<Rightarrow> 'w provider_options \<Rightarrow>
   unit provider_state \<times> 'w \<Rightarrow> (error + string) option \<times> unit provider_state \<times> 'w" where
  "getToken C P options sw =
     (case sw of (st, w) \<Rightarrow>
       (case resolveFallbackToken C options w of
          (Inl e, w1) \<Rightarrow> (Some (Inl e), st, w1)
        | (Inr fallback, w1) \<Rightarrow>
            (if truthy fallback then (Some (Inr (the fallback)), st, w1)
             else
               (let cached = getCachedToken st (now C w1) in
                if truthy cached then (Some (Inr (the cached)), st, w1)
                else if inFlight st = None then
                  (case requestToken C P options (st\<lparr>inFlight := Some ()\<rparr>, w1) of
                     (r, st', w') \<Rightarrow> (Some r, st'\<lparr>inFlight := None\<rparr>, w'))
                else (None, st, w1)))))"

text \<open>
  The states of the closure between invocations that each run alone: the state of a new
  provider, and the state any invocation leaves. The options object may have changed
  between two calls.
\<close>

inductive reachable :: "'w platform \<Rightarrow> 'w provider \<Rightarrow> unit provider_state \<Rightarrow> bool"
  for C :: "'w platform" and P :: "'w provider" where
  reachable_initial: "reachable C P initial_state"
| reachable_call:
    "reachable C P st \<Longrightarrow> getToken C P options (st, w) = (r, st', w') \<Longrightarrow> reachable C P st'"

text \<open>Every token the cache holds passed the \<open>access_token\<close> check, so is not empty.\<close>

definition cache_ok :: "'p provider_state \<Rightarrow> bool" where
  "cache_ok st = (case cache st of None \<Rightarrow> True | Some c \<Rightarrow> token c \<noteq> [])"

subsection \<open>Interleaved invocations\<close>

text \<open>
  The runtime is single-threaded: an invocation runs until its next \<open>await\<close>, and other
  invocations run in between. Each piece of code between two awaits is one atomic step of
  the machine below; the effect awaited (a factory, the transport, the body reader) is
  applied to the world when its continuation runs. Any number of refresh tasks may exist
  in this state: that the code never runs two at once is a theorem, not a convention.
\<close>

datatype caller =
    AwaitFallback
      \<comment> \<open>at \<open>await resolveFallbackToken()\<close>\<close>
  | AwaitInFlight nat
      \<comment> \<open>at \<open>await inFlight\<close>, holding the promise of this refresh task\<close>
  | Returned "error + string"

datatype task =
    AwaitCredentials
      \<comment> \<open>at \<open>await Promise.all([...])\<close>\<close>
  | AwaitFetch request
      \<comment> \<open>at \<open>await fetchImpl(...)\<close>: the request is on the wire\<close>
  | AwaitBody response
      \<comment> \<open>at \<open>await response.text()\<close> or \<open>await response.json()\<close>\<close>
  | TaskSettled "error + string"
      \<comment> \<open>\<open>requestToken()\<close> has settled, the \<open>finally\<close> callback has not run yet\<close>
  | TaskFinished "error + string"
      \<comment> \<open>the \<open>finally\<close> callback has run and the promise held by the callers has settled\<close>

record 'w config =
  pstate :: "nat provider_state"
  tasks :: "nat \<Rightarrow> task option"
  next_task :: nat
  callers :: "nat \<Rightarrow> caller option"
  world :: 'w

datatype 'w event =
    Invoke nat
      \<comment> \<open>a new invocation, under this number, runs up to its first await\<close>
  | Resume nat
      \<comment> \<open>the fallback of this invocation has resolved; it runs up to \<open>await inFlight\<close>\<close>
  | Advance nat
      \<comment> \<open>what this refresh task awaits has settled; it runs up to its next await\<close>
  | Finally nat
      \<comment> \<open>the \<open>finally\<close> callback of this refresh task runs\<close>
  | Environment "'w \<Rightarrow> 'w"
      \<comment> \<open>time passes, the environment changes\<close>

text \<open>\<open>requestToken()\<close> from its call to its first await.\<close>

definition startTask :: "'w provider \<Rightarrow> task" where
  "startTask P = (case fetchImpl P of None \<Rightarrow> TaskSettled (Inl FetchRequired)
                                     | Some fetchFn \<Rightarrow> AwaitCredentials)"

text \<open>The provider function from \<open>await resolveFallbackToken()\<close> to its return or to \<open>await inFlight\<close>.\<close>

definition resume :: "'w platform \<Rightarrow> 'w provider \<Rightarrow> 'w provider_options \<Rightarrow> nat \<Rightarrow>
    'w config \<Rightarrow> 'w config" where
  "resume C P options c s =
     (case resolveFallbackToken C options (world s) of
        (Inl e, w1) \<Rightarrow> s\<lparr>callers := (callers s)(c \<mapsto> Returned (Inl e)), world := w1\<rparr>
      | (Inr fallback, w1) \<Rightarrow>
          (if truthy fallback then
             s\<lparr>callers := (callers s)(c \<mapsto> Returned (Inr (the fallback))), world := w1\<rparr>
           else
             (let cached = getCachedToken (pstate s) (now C w1) in
              if truthy cached then
                s\<lparr>callers := (callers s)(c \<mapsto> Returned (Inr (the cached))), world := w1\<rparr>
              else
                (case inFlight (pstate s) of
                   None \<Rightarrow>
                     s\<lparr>pstate := (pstate s)\<lparr>inFlight := Some (next_task s)\<rparr>,
                       tasks := (tasks s)(next_task s \<mapsto> startTask P),
                       next_task := Suc (next_task s),
                       callers := (callers s)(c \<mapsto> AwaitInFlight (next_task s)),
                       world := w1\<rparr>
                 | Some p \<Rightarrow>
                     s\<lparr>callers := (callers s)(c \<mapsto> AwaitInFlight p), world := w1\<rparr>))))"

text \<open>
  \<open>requestToken()\<close> from one await to the next. A task awaits a response only under a
  provider that has a transport (\<open>transport_known\<close> below is an invariant); the branch for
  a provider that has none is never taken and leaves the state as it is.
\<close>

definition advance :: "'w platform \<Rightarrow> 'w provider \<Rightarrow> 'w provider_options \<Rightarrow> nat \<Rightarrow>
    'w config \<Rightarrow> 'w config" where
  "advance C P options p s =
     (case tasks s p of
        Some AwaitCredentials \<Rightarrow>
          (case prepareRequest C P options (world s) of
             (Inl e, w1) \<Rightarrow> s\<lparr>tasks := (tasks s)(p \<mapsto> TaskSettled (Inl e)), world := w1\<rparr>
           | (Inr req, w1) \<Rightarrow>
               s\<lparr>pstate := (pstate s)\<lparr>sent := req # sent (pstate s)\<rparr>,
                 tasks := (tasks s)(p \<mapsto> AwaitFetch req),
                 world := w1\<rparr>)
      | Some (AwaitFetch req) \<Rightarrow>
          (case fetchImpl P of
             None \<Rightarrow> s
           | Some fetchFn \<Rightarrow>
               (case fetchFn req (world s) of
                  (Inl e, w2) \<Rightarrow> s\<lparr>tasks := (tasks s)(p \<mapsto> TaskSettled (Inl e)), world := w2\<rparr>
                | (Inr resp, w2) \<Rightarrow> s\<lparr>tasks := (tasks s)(p \<mapsto> AwaitBody resp), world := w2\<rparr>))
      | Some (AwaitBody resp) \<Rightarrow>
          (case readResponse P (now C (world s)) resp of
             Inl e \<Rightarrow> s\<lparr>tasks := (tasks s)(p \<mapsto> TaskSettled (Inl e))\<rparr>
           | Inr entry \<Rightarrow>
               s\<lparr>pstate := (pstate s)\<lparr>cache := Some entry\<rparr>,
                 tasks := (tasks s)(p \<mapsto> TaskSettled (Inr (token entry)))\<rparr>)
      | _ \<Rightarrow> s)"

text \<open>
  \<open>inFlight = undefined\<close>, whatever \<open>inFlight\<close> holds; then the promise that the callers
  await settles as \<open>requestToken()\<close> did.
\<close>

definition runFinally :: "nat \<Rightarrow> 'w config \<Rightarrow> 'w config" where
  "runFinally p s =
     (case tasks s p of
        Some (TaskSettled r) \<Rightarrow>
          s\<lparr>pstate := (pstate s)\<lparr>inFlight := None\<rparr>,
            tasks := (tasks s)(p \<mapsto> TaskFinished r),
            callers := (\<lambda>c. if callers s c = Some (AwaitInFlight p) then Some (Returned r)
                             else callers s c)\<rparr>
      | _ \<Rightarrow> s)"

fun step :: "'w platform \<Rightarrow> 'w provider \<Rightarrow> 'w provider_options \<Rightarrow> 'w event \<Rightarrow>
    'w config \<Rightarrow> 'w config" where
  "step C P options (Invoke c) s =
     (if callers s c = None then s\<lparr>callers := (callers s)(c \<mapsto> AwaitFallback)\<rparr> else s)"
| "step C P options (Resume c) s =
     (if callers s c = Some AwaitFallback then resume C P options c s else s)"
| "step C P options (Advance p) s = advance C P options p s"
| "step C P options (Finally p) s = runFinally p s"
| "step C P options (Environment g) s = s\<lparr>world := g (world s)\<rparr>"

definition run :: "'w platform \<Rightarrow> 'w provider \<Rightarrow> 'w provider_options \<Rightarrow> 'w event list \<Rightarrow>
    'w config \<Rightarrow> 'w config" where
  "run C P options es s = fold (step C P options) es s"

definition initial_config :: "TokenCacheEntry option \<Rightarrow> 'w \<Rightarrow> 'w config" where
  "initial_config c w =
     \<lparr> pstate = \<lparr> cache = c, inFlight = None, sent = [] \<rparr>,
       tasks = (\<lambda>p. None), next_task = 0, callers = (\<lambda>c. None), world = w \<rparr>"

text \<open>A request is outstanding from the call of the transport until \<open>requestToken()\<close> settles.\<close>

fun outstanding :: "task option \<Rightarrow> bool" where
  "outstanding (Some (AwaitFetch req)) = True"
| "outstanding (Some (AwaitBody resp)) = True"
| "outstanding t = False"

subsection \<open>The request client: header composition\<close>

text \<open>
  \<open>HeaderInput\<close> is openapi-fetch's \<open>HeadersOptions\<close>: a \<open>Headers\<close> instance (given by its
  entries), an array of pairs, or a plain object (given by \<open>Object.entries\<close>). A value of
  an array or object entry is \<open>None\<close> for \<open>undefined\<close> and \<open>null\<close>, and otherwise the string
  that \<open>String(value)\<close> yields.
\<close>

datatype HeaderInput =
    HeadersInstance "(string \<times> string) list"
  | PairArray "(string \<times> string option) list"
  | PlainObject "(string \<times> string option) list"

text \<open>
  The platform's \<open>Headers\<close> class, as far as the source uses it, after the Fetch standard.
  Names are compared without regard to ASCII case and listed in lower case. \<open>set\<close> strips
  the value of its leading and trailing HTTP whitespace (tab, line feed, carriage return,
  space); it throws a \<open>TypeError\<close> if the name is not a token of HTTP or if the stripped
  value contains a NUL, a line feed or a carriage return; otherwise it replaces the value
  of the name. \<open>forEach\<close> visits the entries in the order of their names.
\<close>

type_synonym Headers = "(string \<times> string) list"

definition lower_char :: "char \<Rightarrow> char" where
  "lower_char c = (if CHR ''A'' \<le> c \<and> c \<le> CHR ''Z'' then char_of (of_char c + (32::nat)) else c)"

definition lowercase :: "string \<Rightarrow> string" where
  "lowercase s = map lower_char s"

definition http_whitespace :: "char \<Rightarrow> bool" where
  "http_whitespace c =
     (of_char c = (9::nat) \<or> of_char c = (10::nat) \<or> of_char c = (13::nat) \<or>
      of_char c = (32::nat))"

definition normalize_value :: "string \<Rightarrow> string" where
  "normalize_value v = rev (dropWhile http_whitespace (rev (dropWhile http_whitespace v)))"

text \<open>
  The characters of a token of HTTP: a digit, a letter, or one of
  \<open>! # $ % & ' * + - . ^ _ ` | ~\<close>.
\<close>

definition in_range :: "char \<Rightarrow> char \<Rightarrow> char \<Rightarrow> bool" where
  "in_range first final c = (first \<le> c \<and> c \<le> final)"

definition token_char :: "char \<Rightarrow> bool" where
  "token_char c =
     (in_range (CHR ''0'') (CHR ''9'') c \<or> in_range (CHR ''A'') (CHR ''Z'') c \<or>
      in_range (CHR ''a'') (CHR ''z'') c \<or> c \<in> set ''!#$%&*+-.^_|~'' \<or>
      c = CHR 0x27 \<or> c = CHR 0x60)"

definition header_name :: "string \<Rightarrow> bool" where
  "header_name name = (name \<noteq> [] \<and> list_all token_char name)"

text \<open>A stripped value is a header value if it has none of the three forbidden bytes.\<close>

definition header_value :: "string \<Rightarrow> bool" where
  "header_value v =
     list_all (\<lambda>c. of_char c \<noteq> (0::nat) \<and> of_char c \<noteq> (10::nat) \<and> of_char c \<noteq> (13::nat)) v"

fun headers_put :: "string \<Rightarrow> string \<Rightarrow> Headers \<Rightarrow> Headers" where
  "headers_put name v [] = [(name, v)]"
| "headers_put name v ((k, x) # h) =
     (if k = name then (k, v) # h else (k, x) # headers_put name v h)"

definition Headers_set :: "string \<Rightarrow> string \<Rightarrow> Headers \<Rightarrow> error + Headers" where
  "Headers_set name v h =
     (if header_name name \<and> header_value (normalize_value v)
      then Inr (headers_put (lowercase name) (normalize_value v) h)
      else Inl TypeError)"

definition Headers_entries :: "Headers \<Rightarrow> (string \<times> string) list" where
  "Headers_entries h = sort_key fst h"

text \<open>
  The loops of \<open>mergeIntoHeaders\<close>: each entry whose value is defined is set, in order, and
  the first \<open>TypeError\<close> ends the loop and the function.
\<close>

fun set_each :: "(string \<times> string option) list \<Rightarrow> Headers \<Rightarrow> error + Headers" where
  "set_each [] target = Inr target"
| "set_each ((key, v) # ps) target =
     (case v of
        None \<Rightarrow> set_each ps target
      | Some s \<Rightarrow>
          (case Headers_set key s target of
             Inl e \<Rightarrow> Inl e
           | Inr target' \<Rightarrow> set_each ps target'))"

fun mergeIntoHeaders :: "Headers \<Rightarrow> HeaderInput option \<Rightarrow> error + Headers" where
  "mergeIntoHeaders target None = Inr target"
| "mergeIntoHeaders target (Some (HeadersInstance es)) =
     set_each (map (\<lambda>kv. (fst kv, Some (snd kv))) es) target"
| "mergeIntoHeaders target (Some (PairArray ps)) = set_each ps target"
| "mergeIntoHeaders target (Some (PlainObject ps)) = set_each ps target"

text \<open>
  \<open>headersToObject\<close> assigns \<open>result[key] = value\<close> on an object literal. For the key
  \<open>__proto__\<close> the assignment goes to the setter that \<open>Object.prototype\<close> has under that
  name, which ignores a string: the object gets no property of that name.
\<close>

definition headersToObject :: "Headers \<Rightarrow> (string \<times> string) list" where
  "headersToObject headers = filter (\<lambda>kv. fst kv \<noteq> ''__proto__'') (Headers_entries headers)"

definition startsWith :: "string \<Rightarrow> string \<Rightarrow> bool" where
  "startsWith s p = (take (length p) s = p)"

text \<open>What \<open>createAlvysClient\<close>'s \<open>buildHeaders\<close> and \<open>wrap\<close> read of the client's options.\<close>

record 'w client_options =
  accessToken :: "('w, string) ValueOrFactory option"
  defaultHeaders :: "('w, HeaderInput) ValueOrFactory option"

text \<open>
  \<open>buildHeaders\<close>. The default headers are merged before the access token is resolved, so
  that a \<open>TypeError\<close> of theirs leaves the token's factory uncalled.
\<close>

definition buildHeaders ::
  "'w client_options \<Rightarrow> HeaderInput option \<Rightarrow> ('w, (string \<times> string) list option) effect" where
  "buildHeaders options requestHeaders w =
     (case resolveValue (defaultHeaders options) w of
        (Inl e, w1) \<Rightarrow> (Inl e, w1)
      | (Inr defaults, w1) \<Rightarrow>
          (case mergeIntoHeaders [] defaults of
             Inl e \<Rightarrow> (Inl e, w1)
           | Inr headers1 \<Rightarrow>
               (case resolveValue (accessToken options) w1 of
                  (Inl e, w2) \<Rightarrow> (Inl e, w2)
                | (Inr tok, w2) \<Rightarrow>
                    (case (if truthy tok
                           then Headers_set ''Authorization''
                                  (if startsWith (the tok) ''Bearer '' then the tok
                                   else ''Bearer '' @ the tok) headers1
                           else Inr headers1) of
                       Inl e \<Rightarrow> (Inl e, w2)
                     | Inr headers2 \<Rightarrow>
                         (case mergeIntoHeaders headers2 requestHeaders of
                            Inl e \<Rightarrow> (Inl e, w2)
                          | Inr headers3 \<Rightarrow>
                              (let hasHeaders = (Headers_entries headers3 \<noteq> [])
                               in (Inr (if hasHeaders then Some (headersToObject headers3)
                                        else None), w2)))))))"

subsection \<open>The request client: delegation\<close>

text \<open>
  The option bag of a verb call: its \<open>headers\<close> field and its other fields by name. The
  arguments of a call of the wrapper are none, or the endpoint and the bag (\<open>None\<close> for
  \<open>undefined\<close>); what the wrapper returns is the executor's result for the call it makes.
\<close>

record 'x bag =
  headers :: "HeaderInput option"
  others :: "string \<rightharpoonup> 'x"

datatype ('u, 'x) arguments = NoArguments | Arguments 'u "'x bag option"

datatype ('u, 'x) delegated = CallUrl 'u | CallUrlOptions 'u "'x bag"

definition empty_object :: "'x bag" where
  "empty_object = \<lparr> headers = None, others = Map.empty \<rparr>"

definition asObject :: "(string \<times> string) list \<Rightarrow> HeaderInput" where
  "asObject obj = PlainObject (map (\<lambda>kv. (fst kv, Some (snd kv))) obj)"

definition wrap ::
  "'w client_options \<Rightarrow> ('u, 'x) arguments \<Rightarrow> ('w, ('u, 'x) delegated) effect" where
  "wrap options args w =
     (case args of
        NoArguments \<Rightarrow> (Inl EndpointRequired, w)
      | Arguments u opts \<Rightarrow>
          (case buildHeaders options (case opts of None \<Rightarrow> None | Some b \<Rightarrow> headers b) w of
             (Inl e, w') \<Rightarrow> (Inl e, w')
           | (Inr (Some hs), w') \<Rightarrow>
               (Inr (CallUrlOptions u
                       ((case opts of None \<Rightarrow> empty_object | Some b \<Rightarrow> b)
                          \<lparr>headers := Some (asObject hs)\<rparr>)), w')
           | (Inr None, w') \<Rightarrow>
               (case opts of
                  None \<Rightarrow> (Inr (CallUrl u), w')
                | Some b \<Rightarrow> (Inr (CallUrlOptions u b), w'))))"

subsection \<open>The composition of headers, as specified\<close>

text \<open>
  The composition as the specification words it, in terms of its own: a sequence of
  writes, a later one overriding an earlier one where their names collide without regard
  to case. A header is written as a name and a value; what it contributes is its value
  without the surrounding whitespace, under its name with the capital letters folded.
  The writes are those of the resolved default headers, then the one of \<open>Authorization\<close>,
  then those of the headers of the request.
\<close>

definition upper_case_letters :: string where
  "upper_case_letters = ''ABCDEFGHIJKLMNOPQRSTUVWXYZ''"

definition lower_case_letters :: string where
  "lower_case_letters = ''abcdefghijklmnopqrstuvwxyz''"

definition fold_case :: "string \<Rightarrow> string" where
  "fold_case name =
     map (\<lambda>c. case map_of (zip upper_case_letters lower_case_letters) c of
                 Some l \<Rightarrow> l
               | None \<Rightarrow> c) name"

fun strip_left :: "string \<Rightarrow> string" where
  "strip_left [] = []"
| "strip_left (c # cs) =
     (if c \<in> {CHR 0x09, CHR 0x0A, CHR 0x0D, CHR '' ''} then strip_left cs else c # cs)"

definition stripped :: "string \<Rightarrow> string" where
  "stripped v = rev (strip_left (rev (strip_left v)))"

definition layer :: "(string \<times> string) list \<Rightarrow> (string \<rightharpoonup> string)" where
  "layer ps = map_of (rev (map (\<lambda>kv. (fold_case (fst kv), stripped (snd kv))) ps))"

text \<open>An entry whose value is \<open>undefined\<close> or \<open>null\<close> is not a header.\<close>

fun given_headers :: "HeaderInput option \<Rightarrow> (string \<times> string) list" where
  "given_headers None = []"
| "given_headers (Some (HeadersInstance es)) = es"
| "given_headers (Some (PairArray ps)) =
     concat (map (\<lambda>kv. case snd kv of None \<Rightarrow> [] | Some v \<Rightarrow> [(fst kv, v)]) ps)"
| "given_headers (Some (PlainObject ps)) =
     concat (map (\<lambda>kv. case snd kv of None \<Rightarrow> [] | Some v \<Rightarrow> [(fst kv, v)]) ps)"

definition authorization :: "string option \<Rightarrow> (string \<times> string) list" where
  "authorization tok =
     (case tok of
        None \<Rightarrow> []
      | Some t \<Rightarrow> (if t = [] then []
                   else if prefix ''Bearer '' t then [(''Authorization'', t)]
                   else [(''Authorization'', ''Bearer '' @ t)]))"

definition composed_spec ::
  "HeaderInput option \<Rightarrow> string option \<Rightarrow> HeaderInput option \<Rightarrow> (string \<rightharpoonup> string)" where
  "composed_spec defaults tok requestHeaders =
     layer (given_headers defaults) ++ layer (authorization tok) ++ layer (given_headers requestHeaders)"

definition writes ::
  "HeaderInput option \<Rightarrow> string option \<Rightarrow> HeaderInput option \<Rightarrow> (string \<times> string) list" where
  "writes defaults tok requestHeaders =
     given_headers defaults @ authorization tok @ given_headers requestHeaders"

text \<open>
  What the platform accepts as a header: a name that is not empty and is made of the
  characters of an HTTP token, and a value that, once stripped, has no NUL, line feed or
  carriage return.
\<close>

definition name_characters :: string where
  "name_characters =
     CHR 0x27 # CHR 0x60 #
     ''!#$%&*+-.^_|~0123456789ABCDEFGHIJKLMNOPQRSTUVWXYZabcdefghijklmnopqrstuvwxyz''"

definition acceptable :: "string \<times> string \<Rightarrow> bool" where
  "acceptable kv =
     (fst kv \<noteq> [] \<and> set (fst kv) \<subseteq> set name_characters \<and>
      set (stripped (snd kv)) \<inter> {CHR 0x00, CHR 0x0A, CHR 0x0D} = {})"

text \<open>The \<open>Headers\<close> object after a sequence of writes that the platform accepts.\<close>

definition written :: "(string \<times> string) list \<Rightarrow> Headers \<Rightarrow> Headers" where
  "written ws h = fold (\<lambda>kv. headers_put (fold_case (fst kv)) (stripped (snd kv))) ws h"


subsection \<open>Single flight: the invariants\<close>

text \<open>
  A refresh task is active from the call of \<open>requestToken()\<close> until its \<open>finally\<close> callback
  has run. The first invariant holds in every state the machine reaches: an active task
  is the one that \<open>inFlight\<close> holds.
\<close>

fun active :: "task option \<Rightarrow> bool" where
  "active None = False"
| "active (Some (TaskFinished r)) = False"
| "active (Some t) = True"

definition single_flight :: "'w config \<Rightarrow> bool" where
  "single_flight s = (\<forall>p. active (tasks s p) \<longrightarrow> inFlight (pstate s) = Some p)"

text \<open>
  A task that awaits its credentials or its response was started by a provider that has a
  transport.
\<close>

definition transport_known :: "'w provider \<Rightarrow> 'w config \<Rightarrow> bool" where
  "transport_known P s =
     (\<forall>p. (tasks s p = Some AwaitCredentials \<or> (\<exists>req. tasks s p = Some (AwaitFetch req))) \<longrightarrow>
          fetchImpl P \<noteq> None)"

text \<open>
  The setting of the second invariant. An invocation that passes its fallback in the world
  \<open>w\<close> misses if the fallback resolves there to nothing usable and the credential \<open>c0\<close>,
  the one the cache holds before the first invocation, if it holds one, has reached its
  \<open>expiresAt\<close> at the time the cache is then checked. A schedule is uncached if every
  invocation that it resumes misses, in the world in which it is resumed.
\<close>

definition misses ::
  "'w platform \<Rightarrow> 'w provider_options \<Rightarrow> TokenCacheEntry option \<Rightarrow> 'w \<Rightarrow> bool" where
  "misses C options c0 w =
     (case resolveFallbackToken C options w of
        (Inl e, w1) \<Rightarrow> False
      | (Inr fb, w1) \<Rightarrow>
          \<not> truthy fb \<and> (case c0 of None \<Rightarrow> True | Some c \<Rightarrow> expiresAt c \<le> now C w1))"

definition finds_nothing ::
  "'w platform \<Rightarrow> 'w provider_options \<Rightarrow> TokenCacheEntry option \<Rightarrow> 'w event \<Rightarrow> 'w config \<Rightarrow> bool" where
  "finds_nothing C options c0 e s =
     (case e of
        Resume c \<Rightarrow> (callers s c = Some AwaitFallback \<longrightarrow> misses C options c0 (world s))
      | _ \<Rightarrow> True)"

text \<open>A property of the event and the state holds at every step of a run.\<close>

fun throughout ::
  "('e \<Rightarrow> 's \<Rightarrow> bool) \<Rightarrow> ('e \<Rightarrow> 's \<Rightarrow> 's) \<Rightarrow> 'e list \<Rightarrow> 's \<Rightarrow> bool" where
  "throughout Q f [] s = True"
| "throughout Q f (e # es) s = (Q e s \<and> throughout Q f es (f e s))"

definition uncached ::
  "'w platform \<Rightarrow> 'w provider \<Rightarrow> 'w provider_options \<Rightarrow> TokenCacheEntry option \<Rightarrow>
   'w event list \<Rightarrow> 'w config \<Rightarrow> bool" where
  "uncached C P options c0 es s = throughout (finds_nothing C options c0) (step C P options) es s"

text \<open>
  The refresh succeeds along a schedule: whenever a refresh task is advanced, what it
  awaited has settled well. The client id and secret have resolved to non-empty strings;
  the transport has returned a response, with a status from 200 to 299 and a body that
  is JSON with a non-empty \<open>access_token\<close>.
\<close>

definition response_usable :: "response \<Rightarrow> bool" where
  "response_usable resp =
     (response_ok resp \<and>
      (case body_json resp of Inl e \<Rightarrow> False | Inr data \<Rightarrow> truthy (access_token data)))"

definition settles_well ::
  "'w platform \<Rightarrow> 'w provider \<Rightarrow> 'w provider_options \<Rightarrow> 'w event \<Rightarrow> 'w config \<Rightarrow> bool" where
  "settles_well C P options e s =
     (case e of
        Advance p \<Rightarrow>
          (case tasks s p of
             Some AwaitCredentials \<Rightarrow>
               (case prepareRequest C P options (world s) of
                  (Inl x, w1) \<Rightarrow> False
                | (Inr req, w1) \<Rightarrow> True)
           | Some (AwaitFetch req) \<Rightarrow>
               (case fetchImpl P of
                  None \<Rightarrow> False
                | Some fetchFn \<Rightarrow>
                    (case fetchFn req (world s) of
                       (Inl x, w2) \<Rightarrow> False
                     | (Inr resp, w2) \<Rightarrow> response_usable resp))
           | _ \<Rightarrow> True)
      | _ \<Rightarrow> True)"

definition refresh_succeeds ::
  "'w platform \<Rightarrow> 'w provider \<Rightarrow> 'w provider_options \<Rightarrow> 'w event list \<Rightarrow> 'w config \<Rightarrow> bool" where
  "refresh_succeeds C P options es s =
     throughout (settles_well C P options) (step C P options) es s"

text \<open>No refresh task has failed, and none holds a response that will make it fail.\<close>

definition unfailed :: "'w config \<Rightarrow> bool" where
  "unfailed s =
     (\<forall>p. (\<forall>resp. tasks s p = Some (AwaitBody resp) \<longrightarrow> response_usable resp) \<and>
          (\<forall>e. tasks s p \<noteq> Some (TaskSettled (Inl e)) \<and> tasks s p \<noteq> Some (TaskFinished (Inl e))))"

fun is_Resume :: "'w event \<Rightarrow> bool" where
  "is_Resume (Resume c) = True"
| "is_Resume e = False"

fun is_Finally :: "'w event \<Rightarrow> bool" where
  "is_Finally (Finally p) = True"
| "is_Finally e = False"

text \<open>A schedule is concurrent if, once it has a \<open>Finally\<close> event, it has no later \<open>Resume\<close>.\<close>

fun concurrent :: "'w event list \<Rightarrow> bool" where
  "concurrent [] = True"
| "concurrent (e # es) =
     (if is_Finally e then list_all (\<lambda>e'. \<not> is_Resume e') es else concurrent es)"

text \<open>
  In an uncached and concurrent schedule there is never more than the one refresh task,
  number 0. What holds of
  the closure's variables at each of its stages, and of a caller's state:
\<close>

fun outcome_facts :: "TokenCacheEntry option \<Rightarrow> nat provider_state \<Rightarrow> error + string \<Rightarrow> bool" where
  "outcome_facts c0 ps (Inl e) = (length (sent ps) \<le> 1 \<and> cache ps = c0)"
| "outcome_facts c0 ps (Inr t) =
     (length (sent ps) = 1 \<and> (\<exists>x. cache ps = Some \<lparr>token = t, expiresAt = x\<rparr>))"

fun task_facts :: "TokenCacheEntry option \<Rightarrow> nat provider_state \<Rightarrow> task \<Rightarrow> bool" where
  "task_facts c0 ps AwaitCredentials = (inFlight ps = Some 0 \<and> sent ps = [] \<and> cache ps = c0)"
| "task_facts c0 ps (AwaitFetch req) = (inFlight ps = Some 0 \<and> sent ps = [req] \<and> cache ps = c0)"
| "task_facts c0 ps (AwaitBody resp) = (inFlight ps = Some 0 \<and> length (sent ps) = 1 \<and> cache ps = c0)"
| "task_facts c0 ps (TaskSettled r) = (inFlight ps = Some 0 \<and> outcome_facts c0 ps r)"
| "task_facts c0 ps (TaskFinished r) = (inFlight ps = None \<and> outcome_facts c0 ps r)"

fun caller_facts :: "task \<Rightarrow> caller option \<Rightarrow> bool" where
  "caller_facts t0 None = True"
| "caller_facts t0 (Some AwaitFallback) = True"
| "caller_facts t0 (Some (AwaitInFlight p)) = (p = 0 \<and> (\<forall>r. t0 \<noteq> TaskFinished r))"
| "caller_facts t0 (Some (Returned r)) = (t0 = TaskSettled r \<or> t0 = TaskFinished r)"

definition not_started :: "TokenCacheEntry option \<Rightarrow> 'w config \<Rightarrow> bool" where
  "not_started c0 s =
     (next_task s = 0 \<and> tasks s = Map.empty \<and>
      pstate s = \<lparr> cache = c0, inFlight = None, sent = [] \<rparr> \<and>
      (\<forall>c. callers s c = None \<or> callers s c = Some AwaitFallback))"

definition started :: "TokenCacheEntry option \<Rightarrow> task \<Rightarrow> 'w config \<Rightarrow> bool" where
  "started c0 t0 s =
     (next_task s = 1 \<and> tasks s = [0 \<mapsto> t0] \<and> task_facts c0 (pstate s) t0 \<and>
      (\<forall>c. caller_facts t0 (callers s c)))"

definition one_refresh :: "TokenCacheEntry option \<Rightarrow> 'w config \<Rightarrow> bool" where
  "one_refresh c0 s = (not_started c0 s \<or> (\<exists>t0. started c0 t0 s))"

text \<open>An invocation that resumes now starts the one refresh or joins it.\<close>

definition joinable :: "'w config \<Rightarrow> bool" where
  "joinable s = (next_task s = 0 \<or> inFlight (pstate s) \<noteq> None)"

text \<open>
  An invocation has passed its fallback; the events by which the runtime lets refresh task
  0 run to its end; the number of awaits a task still has before it settles.
\<close>

definition resumed :: "'w config \<Rightarrow> nat \<Rightarrow> bool" where
  "resumed s c = (\<exists>x. callers s c = Some x \<and> x \<noteq> AwaitFallback)"

definition settle :: "'w event list" where
  "settle = [Advance 0, Advance 0, Advance 0, Finally 0]"

fun remaining :: "task \<Rightarrow> nat" where
  "remaining AwaitCredentials = 3"
| "remaining (AwaitFetch req) = 2"
| "remaining (AwaitBody resp) = 1"
| "remaining t = 0"

text \<open>Every token that a task has settled with or a caller has received is not empty.\<close>

definition tokens_nonempty :: "'w config \<Rightarrow> bool" where
  "tokens_nonempty s =
     ((\<forall>p t. tasks s p = Some (TaskSettled (Inr t)) \<or> tasks s p = Some (TaskFinished (Inr t)) \<longrightarrow>
             t \<noteq> []) \<and>
      (\<forall>c t. callers s c = Some (Returned (Inr t)) \<longrightarrow> t \<noteq> []))"

text \<open>
  One invocation that runs alone, with the events of its refresh task; and the closure's
  variables as that invocation sees them, the promise apart.
\<close>

definition sequential :: "nat \<Rightarrow> nat \<Rightarrow> 'w event list" where
  "sequential c p = [Invoke c, Resume c, Advance p, Advance p, Advance p, Finally p]"

definition alone :: "'p provider_state \<Rightarrow> unit provider_state" where
  "alone st = \<lparr> cache = cache st, inFlight = None, sent = sent st \<rparr>"

subsection \<open>Concrete providers and endpoints\<close>

text \<open>
  The world of the examples is the reading of the clock, in milliseconds; an exchange with
  the token endpoint takes 120 ms.
\<close>

definition example_platform :: "int platform" where
  "example_platform = \<lparr> now = (\<lambda>w. w), processEnv = (\<lambda>w. None) \<rparr>"

definition token_platform :: "int platform" where
  "token_platform =
     \<lparr> now = (\<lambda>w. w), processEnv = (\<lambda>w. Some [''ALVYS_TOKEN'' \<mapsto> ''manual'']) \<rparr>"

definition example_response :: "int option \<Rightarrow> response" where
  "example_response e =
     \<lparr> status = 200, statusText = ''OK'', body_text = Inr [],
       body_json = Inr \<lparr> access_token = Some ''tok'', expires_in = e \<rparr> \<rparr>"

definition unavailable :: response where
  "unavailable =
     \<lparr> status = 503, statusText = ''Service Unavailable'', body_text = Inl (Thrown ''aborted''),
       body_json = Inl (Thrown ''aborted'') \<rparr>"

definition example_fetch :: "int option \<Rightarrow> int fetch_fn" where
  "example_fetch e req w = (Inr (example_response e), w + 120)"

text \<open>An endpoint that is down until the clock reads 2000.\<close>

definition flaky_fetch :: "int fetch_fn" where
  "flaky_fetch req w =
     (if w < 2000 then (Inr unavailable, w + 120)
      else (Inr (example_response (Some 3600)), w + 120))"

definition example_options :: "int fetch_fn option \<Rightarrow> int provider_options" where
  "example_options f =
     \<lparr> clientId = Some (Value ''id''), clientSecret = Some (Value ''secret''), audience = None,
       scope = None, fetch = f, fallbackToken = None, expirationBufferMs = None \<rparr>"

text \<open>Options whose three value-or-factory fields are factories.\<close>

definition factory_options :: "int provider_options" where
  "factory_options =
     \<lparr> clientId = Some (Factory (\<lambda>w. (Inr (Some (if w < 2000 then ''id'' else ''id2'')), w))),
       clientSecret = Some (Factory (\<lambda>w. (Inr (Some ''secret''), w))),
       audience = None, scope = None, fetch = Some (example_fetch (Some 3600)),
       fallbackToken = Some (Factory (\<lambda>w. (Inr (Some ''manual''), w))),
       expirationBufferMs = None \<rparr>"

text \<open>Options whose client id is no longer available once the clock reads 2000.\<close>

definition revoked_options :: "int provider_options" where
  "revoked_options =
     \<lparr> clientId = Some (Factory (\<lambda>w. (Inr (if w < 2000 then Some ''id'' else None), w))),
       clientSecret = Some (Value ''secret''),
       audience = None, scope = None, fetch = Some (example_fetch (Some 3600)),
       fallbackToken = None, expirationBufferMs = None \<rparr>"

definition example_request :: "string \<Rightarrow> request" where
  "example_request cid =
     \<lparr> url = ''https://auth.alvys.com/oauth/token'', http_method = ''POST'',
       content_type = ''application/json'',
       body = \<lparr> client_id = cid, client_secret = ''secret'',
                pl_audience = ''https://api.alvys.com/public/'',
                grant_type = ''client_credentials'', pl_scope = None \<rparr> \<rparr>"

text \<open>
  Options that configure an audience, two scopes and a buffer; and the same object after
  these fields and the transport have been assigned anew.
\<close>

definition configured_options :: "int provider_options" where
  "configured_options =
     \<lparr> clientId = Some (Factory (\<lambda>w. (Inr (Some (if w < 2000 then ''id'' else ''id2'')), w))),
       clientSecret = Some (Factory (\<lambda>w. (Inr (Some ''secret''), w))),
       audience = Some ''https://api.example.test/'', scope = Some (ScopeArray [''read'', ''write'']),
       fetch = Some (example_fetch (Some 3600)), fallbackToken = None,
       expirationBufferMs = Some 30000 \<rparr>"

definition reassigned_options :: "int provider_options" where
  "reassigned_options =
     configured_options\<lparr>audience := Some ''https://other.example.test/'', scope := None,
       fetch := None, expirationBufferMs := Some 0\<rparr>"

definition configured_request :: "string \<Rightarrow> request" where
  "configured_request cid =
     \<lparr> url = ''https://auth.alvys.com/oauth/token'', http_method = ''POST'',
       content_type = ''application/json'',
       body = \<lparr> client_id = cid, client_secret = ''secret'',
                pl_audience = ''https://api.example.test/'',
                grant_type = ''client_credentials'', pl_scope = Some ''read write'' \<rparr> \<rparr>"

text \<open>
  An arithmetic with a value that is not a number: the integers and \<open>NaN\<close>, which every
  operation propagates and which is greater than nothing.
\<close>

datatype number = NaN | Num int

definition numbers :: "number arithmetic" where
  "numbers =
     \<lparr> n_lit = Num,
       n_mul = (\<lambda>a b. case a of NaN \<Rightarrow> NaN
                       | Num x \<Rightarrow> (case b of NaN \<Rightarrow> NaN | Num y \<Rightarrow> Num (x * y))),
       n_sub = (\<lambda>a b. case a of NaN \<Rightarrow> NaN
                       | Num x \<Rightarrow> (case b of NaN \<Rightarrow> NaN | Num y \<Rightarrow> Num (x - y))),
       n_add = (\<lambda>a b. case a of NaN \<Rightarrow> NaN
                       | Num x \<Rightarrow> (case b of NaN \<Rightarrow> NaN | Num y \<Rightarrow> Num (x + y))),
       n_max = (\<lambda>a b. case a of NaN \<Rightarrow> NaN
                       | Num x \<Rightarrow> (case b of NaN \<Rightarrow> NaN | Num y \<Rightarrow> Num (max x y))),
       n_gt = (\<lambda>a b. case a of NaN \<Rightarrow> False
                      | Num x \<Rightarrow> (case b of NaN \<Rightarrow> False | Num y \<Rightarrow> y < x)) \<rparr>"

text \<open>The provider's state after one refresh that the endpoint answered at 1120.\<close>

definition cached_state :: "unit provider_state" where
  "cached_state =
     \<lparr> cache = Some \<lparr> token = ''tok'', expiresAt = 3541120 \<rparr>, inFlight = None,
       sent = [example_request ''id''] \<rparr>"

text \<open>The provider's state after one refresh that the endpoint refused.\<close>

definition failed_state :: "unit provider_state" where
  "failed_state = \<lparr> cache = None, inFlight = None, sent = [example_request ''id''] \<rparr>"

subsection \<open>Concrete clients and calls\<close>

definition example_client :: "nat client_options" where
  "example_client =
     \<lparr> accessToken = Some (Value ''tok''),
       defaultHeaders = Some (Value (PlainObject [(''A'', Some ''1'')])) \<rparr>"

definition bare_client :: "nat client_options" where
  "bare_client = \<lparr> accessToken = None, defaultHeaders = None \<rparr>"

definition example_headers :: HeaderInput where
  "example_headers = PlainObject [(''A'', Some '' 2 ''), (''Authorization'', Some ''X'')]"

definition example_bag :: "nat bag" where
  "example_bag = \<lparr> headers = Some example_headers, others = [''body'' \<mapsto> 7] \<rparr>"

definition empty_headers_bag :: "nat bag" where
  "empty_headers_bag = \<lparr> headers = Some (PlainObject []), others = [''body'' \<mapsto> 7] \<rparr>"

text \<open>
  A header whose name has a space in it; a client whose token ends with a space; a client
  whose default header is named \<open>__proto__\<close>.
\<close>

definition misnamed_bag :: "nat bag" where
  "misnamed_bag =
     \<lparr> headers = Some (PlainObject [(''bad name'', Some ''1'')]), others = [''body'' \<mapsto> 7] \<rparr>"

definition padded_client :: "nat client_options" where
  "padded_client = \<lparr> accessToken = Some (Value ''abc ''), defaultHeaders = None \<rparr>"

definition proto_client :: "nat client_options" where
  "proto_client =
     \<lparr> accessToken = None, defaultHeaders = Some (Value (PlainObject [(''__proto__'', Some ''x'')])) \<rparr>"

subsection \<open>Concrete interleavings\<close>

text \<open>
  Three invocations before the refresh has settled, the third one joining while the request
  is on the wire; and two invocations of a provider that has no client id.
\<close>

definition example_schedule :: "int event list" where
  "example_schedule =
     [Invoke 0, Invoke 1, Invoke 2, Resume 0, Resume 1, Advance 0, Resume 2,
      Environment (\<lambda>w. w + 5), Advance 0]"

definition example_run :: "int config" where
  "example_run =
     run example_platform
       (createAlvysAccessTokenProvider (example_options (Some (example_fetch (Some 3600)))) None)
       (example_options (Some (example_fetch (Some 3600))))
       (example_schedule @ settle) (initial_config None 1000)"

definition anonymous_options :: "int provider_options" where
  "anonymous_options = (example_options (Some (example_fetch (Some 3600))))\<lparr>clientId := None\<rparr>"

definition anonymous_run :: "int config" where
  "anonymous_run =
     run example_platform (createAlvysAccessTokenProvider anonymous_options None)
       anonymous_options
       [Invoke 0, Invoke 1, Resume 0, Resume 1, Advance 0, Finally 0] (initial_config None 1000)"

text \<open>
  The three invocations again, the cache holding at the start a credential that expired
  at 500; and two invocations while the endpoint is down.
\<close>

definition expired_credential :: TokenCacheEntry where
  "expired_credential = \<lparr> token = ''old'', expiresAt = 500 \<rparr>"

definition expired_run :: "int event list \<Rightarrow> int config" where
  "expired_run es =
     run example_platform
       (createAlvysAccessTokenProvider (example_options (Some (example_fetch (Some 3600)))) None)
       (example_options (Some (example_fetch (Some 3600))))
       es (initial_config (Some expired_credential) 1000)"

definition refused_schedule :: "int event list" where
  "refused_schedule =
     [Invoke 0, Invoke 1, Resume 0, Resume 1, Advance 0, Advance 0, Advance 0, Finally 0]"

definition refused_run :: "int config" where
  "refused_run =
     run example_platform (createAlvysAccessTokenProvider (example_options (Some flaky_fetch)) None)
       (example_options (Some flaky_fetch)) refused_schedule (initial_config None 1000)"

section \<open>Properties of the token provider\<close>

lemmas provider_defs =
  getToken_def requestToken_def prepareRequest_def resolveCredentials_def resolveClientId_def
  resolveClientSecret_def resolveFallbackToken_def getEnv_def nullish_def truthy_def
  getCachedToken_def readResponse_def response_ok_def ttlMs_def expiresInSeconds_def integers_def
  buildRequest_def createAlvysAccessTokenProvider_def initial_state_def
  AUTH_TOKEN_URL_def PUBLIC_API_AUDIENCE_def TOKEN_DEFAULT_EXPIRES_IN_SECONDS_def
  TOKEN_EXPIRATION_BUFFER_MS_def

lemmas example_defs =
  example_platform_def token_platform_def example_response_def unavailable_def
  example_fetch_def flaky_fetch_def example_options_def factory_options_def
  revoked_options_def example_request_def cached_state_def failed_state_def
  configured_options_def reassigned_options_def configured_request_def

subsection \<open>What \<open>requestToken\<close> does to the closure's variables\<close>

lemma requestToken_inFlight:
  "requestToken C P options (st, w) = (r, st', w') \<Longrightarrow> inFlight st' = inFlight st"
  by (auto simp: requestToken_def split: option.splits prod.splits sum.splits)

lemma requestToken_cache:
  "requestToken C P options (st, w) = (r, st', w') \<Longrightarrow>
     (case r of Inl e \<Rightarrow> cache st' = cache st
              | Inr t \<Rightarrow> t \<noteq> [] \<and> (\<exists>x. cache st' = Some \<lparr>token = t, expiresAt = x\<rparr>))"
  by (auto simp: requestToken_def readResponse_def truthy_def
      split: option.splits prod.splits sum.splits if_splits)

lemma requestToken_success:
  assumes "requestToken C P options (st, w) = (Inr t, st', w')"
  shows "\<exists>req x. sent st' = req # sent st \<and> cache st' = Some \<lparr>token = t, expiresAt = x\<rparr> \<and> t \<noteq> []"
  using assms
  by (auto simp: requestToken_def readResponse_def truthy_def
      split: option.splits prod.splits sum.splits if_splits)

lemma requestToken_sent:
  assumes "fetchImpl P = Some f" and "prepareRequest C P options w = (Inr req, w1)"
  shows "sent (fst (snd (requestToken C P options (st, w)))) = req # sent st"
  using assms by (auto simp: requestToken_def split: prod.splits sum.splits)

lemma requestToken_no_transport:
  assumes "fetchImpl P = None"
  shows "requestToken C P options (st, w) = (Inl FetchRequired, st, w)"
  using assms by (simp add: requestToken_def)

lemma requestToken_no_request:
  assumes "fetchImpl P = Some f" and "prepareRequest C P options w = (Inl e, w1)"
  shows "requestToken C P options (st, w) = (Inl e, st, w1)"
  using assms by (simp add: requestToken_def)

subsection \<open>The states between invocations\<close>

lemma getToken_preserves:
  assumes "inFlight st = None" and "cache_ok st"
    and "getToken C P options (st, w) = (r, st', w')"
  shows "inFlight st' = None \<and> cache_ok st'"
  using assms
  apply (auto simp: getToken_def Let_def split: option.splits prod.splits sum.splits if_splits)
  apply (auto simp: cache_ok_def dest!: requestToken_cache split: sum.splits option.splits)
  done

lemma reachable_inv: "reachable C P st \<Longrightarrow> inFlight st = None \<and> cache_ok st"
proof (induction rule: reachable.induct)
  case reachable_initial
  then show ?case by (simp add: initial_state_def cache_ok_def)
next
  case (reachable_call st options w r st' w')
  from reachable_call.IH have a: "inFlight st = None" and b: "cache_ok st" by simp_all
  show ?case by (rule getToken_preserves[OF a b reachable_call.hyps(2)])
qed


text \<open>
  An invocation whose fallback resolves to nothing usable and that finds no valid
  credential runs \<open>requestToken\<close>, with the marker set before and cleared after.
\<close>

lemma getToken_refresh:
  assumes "inFlight st = None"
    and "resolveFallbackToken C options w = (Inr fb, w1)" and "\<not> truthy fb"
    and "\<not> truthy (getCachedToken st (now C w1))"
  shows "getToken C P options (st, w) =
           (case requestToken C P options (st\<lparr>inFlight := Some ()\<rparr>, w1) of
              (r, st', w') \<Rightarrow> (Some r, st'\<lparr>inFlight := None\<rparr>, w'))"
  using assms by (simp add: getToken_def Let_def)

lemma resolveFallbackToken_sources:
  "resolveFallbackToken C options w =
     (case fallbackToken options of
        None \<Rightarrow> (Inr (getEnv C w ''ALVYS_TOKEN''), w)
      | Some (Value v) \<Rightarrow> (Inr (Some v), w)
      | Some (Factory g) \<Rightarrow>
          (case g w of
             (Inl e, w') \<Rightarrow> (Inl e, w')
           | (Inr v, w') \<Rightarrow> (Inr (nullish v (getEnv C w' ''ALVYS_TOKEN'')), w')))"
  by (simp add: resolveFallbackToken_def nullish_def split: option.splits ValueOrFactory.splits)

text \<open>The two runs that the examples below start from.\<close>

lemma first_call:
  "getToken example_platform
     (createAlvysAccessTokenProvider (example_options (Some (example_fetch (Some 3600)))) None)
     (example_options (Some (example_fetch (Some 3600)))) (initial_state, 1000)
   = (Some (Inr ''tok''), cached_state, 1120)"
  by (simp add: provider_defs example_defs)


subsection \<open>Fallback precedence\<close>

text \<open>
  C2. Whenever the fallback token (a static value, the result of a factory, or the
  \<open>ALVYS_TOKEN\<close> variable: see \<open>resolveFallbackToken_sources\<close>) resolves to a non-empty
  string, the invocation returns that string. It does so in every state of the closure,
  valid credential or not, and leaves the state as it was: the cache is not written, no
  request is handed to the transport, and no error of the refresh path can arise.
\<close>

theorem fallback_precedence:
  assumes "resolveFallbackToken C options w = (Inr (Some t), w1)" and "t \<noteq> []"
  shows "getToken C P options (st, w) = (Some (Inr t), st, w1)"
  using assms by (simp add: getToken_def truthy_def)

theorem fallback_precedence_witness:
  "resolveFallbackToken token_platform (example_options None) 1000 = (Inr (Some ''manual''), 1000) \<and>
   getToken token_platform (createAlvysAccessTokenProvider (example_options None) None)
     (example_options None) (initial_state, 1000) = (Some (Inr ''manual''), initial_state, 1000)"
proof -
  have a: "resolveFallbackToken token_platform (example_options None) 1000
             = (Inr (Some ''manual''), 1000)"
    by (simp add: provider_defs example_defs)
  have b: "''manual'' \<noteq> []" by simp
  from a fallback_precedence[OF a b] show ?thesis by simp
qed

subsection \<open>Cache validity\<close>

text \<open>
  C3, as amended. The fallback resolving to nothing usable and the cache holding a
  credential:
  \<^item> while \<open>expiresAt\<close> is greater than the current time, the invocation returns the cached
    token and leaves the state as it was, so hands nothing to the transport;
  \<^item> hence, if this state is the one a refreshing invocation left, that invocation sent
    exactly one request and the two invocations together sent exactly one;
  \<^item> once \<open>expiresAt\<close> is reached, the invocation hands exactly one request to the transport
    if there is a transport and the client id and secret resolve to non-empty strings;
  \<^item> and it fails without any request if there is no transport or the credentials do not
    resolve.
\<close>

theorem cache_validity:
  assumes "reachable C P st"
    and "resolveFallbackToken C options w = (Inr fb, w1)" and "\<not> truthy fb"
    and "cache st = Some c"
  shows "(now C w1 < expiresAt c \<longrightarrow>
            getToken C P options (st, w) = (Some (Inr (token c)), st, w1)) \<and>
         (\<forall>st0 options0 w0 fb0 w0' t wa.
            now C w1 < expiresAt c \<and> reachable C P st0 \<and>
            resolveFallbackToken C options0 w0 = (Inr fb0, w0') \<and> \<not> truthy fb0 \<and>
            \<not> truthy (getCachedToken st0 (now C w0')) \<and>
            getToken C P options0 (st0, w0) = (Some (Inr t), st, wa) \<longrightarrow>
            (\<exists>req. sent st = req # sent st0) \<and>
            getToken C P options (st, w) = (Some (Inr t), st, w1)) \<and>
         (\<forall>f req w2.
            expiresAt c \<le> now C w1 \<and> fetchImpl P = Some f \<and>
            prepareRequest C P options w1 = (Inr req, w2) \<longrightarrow>
            sent (fst (snd (getToken C P options (st, w)))) = req # sent st) \<and>
         (expiresAt c \<le> now C w1 \<and> fetchImpl P = None \<longrightarrow>
            getToken C P options (st, w) = (Some (Inl FetchRequired), st, w1)) \<and>
         (\<forall>f e w2.
            expiresAt c \<le> now C w1 \<and> fetchImpl P = Some f \<and>
            prepareRequest C P options w1 = (Inl e, w2) \<longrightarrow>
            getToken C P options (st, w) = (Some (Inl e), st, w2))"
proof -
  from reachable_inv[OF assms(1)] have nf: "inFlight st = None" and ok: "cache_ok st"
    by simp_all
  from ok assms(4) have tok: "token c \<noteq> []" by (simp add: cache_ok_def)
  have hit: "getToken C P options (st, w) = (Some (Inr (token c)), st, w1)"
    if "now C w1 < expiresAt c"
    using that assms(2,3,4) tok by (simp add: getToken_def getCachedToken_def truthy_def)
  have two: "(\<exists>req. sent st = req # sent st0) \<and>
             getToken C P options (st, w) = (Some (Inr t), st, w1)"
    if v: "now C w1 < expiresAt c" and r0: "reachable C P st0"
      and f0: "resolveFallbackToken C options0 w0 = (Inr fb0, w0')" and n0: "\<not> truthy fb0"
      and c0: "\<not> truthy (getCachedToken st0 (now C w0'))"
      and g0: "getToken C P options0 (st0, w0) = (Some (Inr t), st, wa)"
    for st0 options0 w0 fb0 w0' t wa
  proof -
    from reachable_inv[OF r0] have nf0: "inFlight st0 = None" by simp
    obtain r2 st2 w2
      where rt: "requestToken C P options0 (st0\<lparr>inFlight := Some ()\<rparr>, w0') = (r2, st2, w2)"
      by (metis prod_cases3)
    from getToken_refresh[OF nf0 f0 n0 c0, of P] g0 rt
    have r2: "r2 = Inr t" and st: "st = st2\<lparr>inFlight := None\<rparr>" by simp_all
    from requestToken_success[of C P options0 "st0\<lparr>inFlight := Some ()\<rparr>" w0' t st2 w2] rt r2
    obtain req x where "sent st2 = req # sent st0"
      and "cache st2 = Some \<lparr>token = t, expiresAt = x\<rparr>" by auto
    with st assms(4) have "sent st = req # sent st0" and "token c = t" by auto
    with hit[OF v] show ?thesis by simp
  qed
  have stale: "\<not> truthy (getCachedToken st (now C w1))" if "expiresAt c \<le> now C w1"
    using that assms(4) by (simp add: getCachedToken_def truthy_def)
  have miss: "sent (fst (snd (getToken C P options (st, w)))) = req # sent st"
    if "expiresAt c \<le> now C w1" and "fetchImpl P = Some f"
      and "prepareRequest C P options w1 = (Inr req, w2)" for f req w2
    using requestToken_sent[OF that(2,3), of "st\<lparr>inFlight := Some ()\<rparr>"]
      getToken_refresh[OF nf assms(2,3) stale[OF that(1)], of P]
    by (simp split: prod.splits)
  have none: "getToken C P options (st, w) = (Some (Inl FetchRequired), st, w1)"
    if "expiresAt c \<le> now C w1" and "fetchImpl P = None"
    using requestToken_no_transport[OF that(2), of C options "st\<lparr>inFlight := Some ()\<rparr>" w1]
      getToken_refresh[OF nf assms(2,3) stale[OF that(1)], of P] nf
    by simp
  have guard: "getToken C P options (st, w) = (Some (Inl e), st, w2)"
    if "expiresAt c \<le> now C w1" and "fetchImpl P = Some f"
      and "prepareRequest C P options w1 = (Inl e, w2)" for f e w2
    using requestToken_no_request[OF that(2,3), of "st\<lparr>inFlight := Some ()\<rparr>"]
      getToken_refresh[OF nf assms(2,3) stale[OF that(1)], of P] nf
    by simp
  from hit two miss none guard show ?thesis by blast
qed

theorem cache_validity_witness:
  "getToken example_platform
     (createAlvysAccessTokenProvider (example_options (Some (example_fetch (Some 3600)))) None)
     (example_options (Some (example_fetch (Some 3600)))) (cached_state, 2000)
     = (Some (Inr ''tok''), cached_state, 2000) \<and>
   sent cached_state = example_request ''id'' # sent (initial_state :: unit provider_state) \<and>
   sent (fst (snd (getToken example_platform
     (createAlvysAccessTokenProvider (example_options (Some (example_fetch (Some 3600)))) None)
     (example_options (Some (example_fetch (Some 3600)))) (cached_state, 3541120))))
     = example_request ''id'' # sent cached_state"
proof -
  let ?O = "example_options (Some (example_fetch (Some 3600)))"
  let ?P = "createAlvysAccessTokenProvider ?O None"
  have r: "reachable example_platform ?P cached_state"
    by (rule reachable_call[OF reachable_initial first_call])
  have f: "resolveFallbackToken example_platform ?O w = (Inr None, w)" for w
    by (simp add: provider_defs example_defs)
  have n: "\<not> truthy None" by (simp add: truthy_def)
  have c: "cache cached_state = Some \<lparr> token = ''tok'', expiresAt = 3541120 \<rparr>"
    by (simp add: cached_state_def)
  have p: "fetchImpl ?P = Some (example_fetch (Some 3600))"
    by (simp add: provider_defs example_defs)
  have q: "prepareRequest example_platform ?P ?O 3541120 = (Inr (example_request ''id''), 3541120)"
    by (simp add: provider_defs example_defs)
  from cache_validity[OF r f n c, of 2000]
  have "getToken example_platform ?P ?O (cached_state, 2000) = (Some (Inr ''tok''), cached_state, 2000)"
    by (simp add: example_platform_def)
  moreover have "sent cached_state = example_request ''id'' # sent (initial_state :: unit provider_state)"
    by (simp add: cached_state_def initial_state_def)
  moreover from cache_validity[OF r f n c, of 3541120] p q
  have "sent (fst (snd (getToken example_platform ?P ?O (cached_state, 3541120))))
          = example_request ''id'' # sent cached_state"
    by (simp add: example_platform_def)
  ultimately show ?thesis by blast
qed

text \<open>
  C3 as it was stated fails where the client id has stopped resolving: the first invocation
  refreshes, the second one, made after \<open>expiresAt\<close>, throws before any request is made.
\<close>

theorem cache_validity_counterexample:
  "getToken example_platform (createAlvysAccessTokenProvider revoked_options None)
     revoked_options (initial_state, 1000) = (Some (Inr ''tok''), cached_state, 1120) \<and>
   cache cached_state = Some \<lparr> token = ''tok'', expiresAt = 3541120 \<rparr> \<and>
   3541120 \<le> now example_platform 4000000 \<and>
   getToken example_platform (createAlvysAccessTokenProvider revoked_options None)
     revoked_options (cached_state, 4000000) = (Some (Inl MissingCredentials), cached_state, 4000000)"
  by (simp add: provider_defs example_defs)

subsection \<open>The lifetime of a credential\<close>

lemma safe_literals: "safe 0" "safe 60" "safe 1000" "safe 3600" "safe 5000"
  by (simp_all add: safe_def)

lemma integer_exactD:
  assumes "integer_exact A" and "safe a" and "safe b"
  shows "safe (a * b) \<Longrightarrow> n_mul A (n_lit A a) (n_lit A b) = n_lit A (a * b)"
    and "safe (a - b) \<Longrightarrow> n_sub A (n_lit A a) (n_lit A b) = n_lit A (a - b)"
    and "safe (a + b) \<Longrightarrow> n_add A (n_lit A a) (n_lit A b) = n_lit A (a + b)"
    and "n_max A (n_lit A a) (n_lit A b) = n_lit A (max a b)"
    and "n_gt A (n_lit A a) (n_lit A b) = (b < a)"
  using assms unfolding integer_exact_def by blast+

text \<open>The two constants in the arithmetic of the integers.\<close>

lemma expiresInSeconds_integers:
  "expiresInSeconds integers e = (case e of Some n \<Rightarrow> if 0 < n then n else 3600 | None \<Rightarrow> 3600)"
  by (simp add: expiresInSeconds_def TOKEN_DEFAULT_EXPIRES_IN_SECONDS_def integers_def
      split: option.splits)

lemma ttlMs_integers:
  "ttlMs integers buffer e =
     max 5000 ((case e of Some n \<Rightarrow> if 0 < n then n else 3600 | None \<Rightarrow> 3600) * 1000 - buffer)"
  by (simp add: ttlMs_def expiresInSeconds_integers) (simp add: integers_def)

text \<open>
  In an arithmetic that is exact on the integers of magnitude up to \<open>2^53\<close>, as that of
  doubles is, the two constants are what they are in the arithmetic of the integers, as
  long as the operands and the results stay in that range.
\<close>

lemma expiresInSeconds_exact:
  assumes ex: "integer_exact A" and e: "\<forall>n. e = Some n \<longrightarrow> safe n"
  shows "expiresInSeconds A (map_option (n_lit A) e) = n_lit A (expiresInSeconds integers e) \<and>
         safe (expiresInSeconds integers e)"
proof -
  have d: "TOKEN_DEFAULT_EXPIRES_IN_SECONDS A = n_lit A 3600"
    using integer_exactD(1)[OF ex safe_literals(2) safe_literals(2)] safe_literals(4)
    by (simp add: TOKEN_DEFAULT_EXPIRES_IN_SECONDS_def)
  show ?thesis
  proof (cases e)
    case None
    have "expiresInSeconds A (map_option (n_lit A) None) = n_lit A 3600"
      using d by (simp add: expiresInSeconds_def)
    with None show ?thesis
      by (simp add: expiresInSeconds_integers safe_literals)
  next
    case (Some n)
    with e have n: "safe n" by simp
    from integer_exactD(5)[OF ex n safe_literals(1)]
    have "n_gt A (n_lit A n) (n_lit A 0) = (0 < n)" .
    with d have "expiresInSeconds A (map_option (n_lit A) (Some n)) =
                   n_lit A (if 0 < n then n else 3600)"
      by (simp add: expiresInSeconds_def)
    with Some n show ?thesis
      by (simp add: expiresInSeconds_integers safe_literals)
  qed
qed

lemma ttlMs_exact:
  assumes ex: "integer_exact A" and e: "\<forall>n. e = Some n \<longrightarrow> safe n" and b: "safe buffer"
    and m: "safe (expiresInSeconds integers e * 1000)"
    and d: "safe (expiresInSeconds integers e * 1000 - buffer)"
  shows "ttlMs A (n_lit A buffer) (map_option (n_lit A) e) = n_lit A (ttlMs integers buffer e)"
proof -
  let ?s = "expiresInSeconds integers e"
  from expiresInSeconds_exact[OF ex e]
  have s: "expiresInSeconds A (map_option (n_lit A) e) = n_lit A ?s" and ss: "safe ?s"
    by simp_all
  have 1: "n_mul A (n_lit A ?s) (n_lit A 1000) = n_lit A (?s * 1000)"
    by (rule integer_exactD(1)[OF ex ss safe_literals(3) m])
  have 2: "n_sub A (n_lit A (?s * 1000)) (n_lit A buffer) = n_lit A (?s * 1000 - buffer)"
    by (rule integer_exactD(2)[OF ex m b d])
  have 3: "n_max A (n_lit A 5000) (n_lit A (?s * 1000 - buffer)) =
             n_lit A (max 5000 (?s * 1000 - buffer))"
    by (rule integer_exactD(4)[OF ex safe_literals(5) d])
  have "ttlMs integers buffer e = max 5000 (?s * 1000 - buffer)"
    by (simp add: ttlMs_def) (simp add: integers_def)
  with s 1 2 3 show ?thesis by (simp add: ttlMs_def)
qed

lemma integer_exact_numbers: "integer_exact numbers"
  by (simp add: integer_exact_def numbers_def)

text \<open>
  Nothing bounds the time to live from below where a number is not an integer: if the
  buffer is not a number, neither is the time to live.
\<close>

lemma ttlMs_not_a_number: "ttlMs numbers NaN e = NaN"
  by (simp add: ttlMs_def numbers_def split: number.splits)

text \<open>
  C4, as amended. When the endpoint answers with a 2xx status and a non-empty
  \<open>access_token\<close>, \<open>requestToken\<close> returns that token, having sent one request, and stores
  it with \<open>expiresAt = now + ttl\<close>, where \<open>now\<close> is read once the answer is there and
  \<open>ttl = max(5000, expires_in * 1000 - expirationBufferMs)\<close>, \<open>expires_in\<close> being the answer's
  if that is a number greater than zero and 3600 if it is absent, not a number, zero or
  negative. The numbers are integers and the arithmetic is exact: the answer's
  \<open>expires_in\<close>, the buffer, the clock and every intermediate result are of magnitude up to
  \<open>2^53\<close>, and then any arithmetic that is exact on that range, as that of doubles is,
  computes this very time to live and this very expiry. The time to live is then at least
  5000 ms.
\<close>

theorem ttl_computation:
  assumes "fetchImpl P = Some f" and "prepareRequest C P options w = (Inr req, w1)"
    and "f req w1 = (Inr resp, w2)" and "response_ok resp"
    and "body_json resp = Inr data" and "access_token data = Some t" and "t \<noteq> []"
    and secs: "secs = (case expires_in data of Some n \<Rightarrow> if 0 < n then n else 3600 | None \<Rightarrow> 3600)"
    and ttl: "ttl = max 5000 (secs * 1000 - p_expirationBufferMs P)"
    and ex: "integer_exact A"
    and e: "\<forall>n. expires_in data = Some n \<longrightarrow> safe n"
    and b: "safe (p_expirationBufferMs P)"
    and m: "safe (secs * 1000)" and d: "safe (secs * 1000 - p_expirationBufferMs P)"
    and n: "safe (now C w2)" and x: "safe (now C w2 + ttl)"
  shows "requestToken C P options (st, w) =
           (Inr t,
            st\<lparr>sent := req # sent st,
               cache := Some \<lparr> token = t, expiresAt = now C w2 + ttl \<rparr>\<rparr>,
            w2) \<and>
         ttlMs A (n_lit A (p_expirationBufferMs P)) (map_option (n_lit A) (expires_in data))
           = n_lit A ttl \<and>
         n_add A (n_lit A (now C w2))
             (ttlMs A (n_lit A (p_expirationBufferMs P)) (map_option (n_lit A) (expires_in data)))
           = n_lit A (now C w2 + ttl) \<and>
         5000 \<le> ttl"
proof -
  have s: "expiresInSeconds integers (expires_in data) = secs"
    by (simp add: secs expiresInSeconds_integers)
  have t: "ttlMs integers (p_expirationBufferMs P) (expires_in data) = ttl"
    by (simp add: ttl secs ttlMs_integers)
  have 1: "requestToken C P options (st, w) =
             (Inr t,
              st\<lparr>sent := req # sent st,
                 cache := Some \<lparr> token = t, expiresAt = now C w2 + ttl \<rparr>\<rparr>,
              w2)"
    using assms(1-7) by (simp add: requestToken_def readResponse_def truthy_def t) (simp add: integers_def)
  from m d have m': "safe (expiresInSeconds integers (expires_in data) * 1000)"
    and d': "safe (expiresInSeconds integers (expires_in data) * 1000 - p_expirationBufferMs P)"
    by (simp_all add: s)
  from ttlMs_exact[OF ex e b m' d']
  have 2: "ttlMs A (n_lit A (p_expirationBufferMs P)) (map_option (n_lit A) (expires_in data))
             = n_lit A ttl"
    by (simp add: t)
  have st: "safe ttl" using d by (simp add: ttl safe_def)
  have 3: "n_add A (n_lit A (now C w2)) (n_lit A ttl) = n_lit A (now C w2 + ttl)"
    by (rule integer_exactD(3)[OF ex n st x])
  have 4: "5000 \<le> ttl" by (simp add: ttl)
  from 1 2 3 4 show ?thesis by simp
qed

theorem ttl_computation_witness:
  "integer_exact numbers \<and>
   requestToken example_platform
     (createAlvysAccessTokenProvider (example_options (Some (example_fetch (Some 1)))) None)
     (example_options (Some (example_fetch (Some 1)))) (initial_state :: unit provider_state, 1000)
   = (Inr ''tok'',
      \<lparr> cache = Some \<lparr> token = ''tok'', expiresAt = 1120 + 5000 \<rparr>, inFlight = None,
        sent = [example_request ''id''] \<rparr>, 1120) \<and>
   ttlMs numbers (Num 60000) (Some (Num 1)) = Num 5000 \<and>
   n_add numbers (Num 1120) (ttlMs numbers (Num 60000) (Some (Num 1))) = Num 6120"
proof -
  let ?O = "example_options (Some (example_fetch (Some 1)))"
  let ?P = "createAlvysAccessTokenProvider ?O None"
  let ?D = "\<lparr> access_token = Some ''tok'', expires_in = Some 1 \<rparr>"
  have a: "fetchImpl ?P = Some (example_fetch (Some 1))"
    by (simp add: provider_defs example_defs)
  have b: "prepareRequest example_platform ?P ?O 1000 = (Inr (example_request ''id''), 1000)"
    by (simp add: provider_defs example_defs)
  have c: "example_fetch (Some 1) (example_request ''id'') 1000 = (Inr (example_response (Some 1)), 1120)"
    by (simp add: example_defs)
  have d: "response_ok (example_response (Some 1))"
    by (simp add: response_ok_def example_defs)
  have e: "body_json (example_response (Some 1)) = Inr ?D"
    by (simp add: example_defs)
  have g: "access_token ?D = Some ''tok''"
    by simp
  have h: "''tok'' \<noteq> []" by simp
  have buf: "p_expirationBufferMs ?P = 60000"
    by (simp add: provider_defs example_defs)
  have i: "(1::int) = (case expires_in ?D of Some n \<Rightarrow> if 0 < n then n else 3600 | None \<Rightarrow> 3600)"
    by simp
  have j: "(5000::int) = max 5000 (1 * 1000 - p_expirationBufferMs ?P)"
    by (simp add: buf)
  have k: "\<forall>n. expires_in ?D = Some n \<longrightarrow> safe n"
    by (simp add: safe_def)
  have l: "safe (p_expirationBufferMs ?P)" "safe (1 * 1000)"
    "safe (1 * 1000 - p_expirationBufferMs ?P)" "safe (now example_platform 1120)"
    "safe (now example_platform 1120 + 5000)"
    by (simp_all add: buf safe_def example_platform_def)
  from ttl_computation[OF a b c d e g h i j integer_exact_numbers k l,
      of "initial_state :: unit provider_state"] integer_exact_numbers
  show ?thesis by (simp add: buf initial_state_def example_platform_def numbers_def)
qed

text \<open>
  C4 as it was stated fails for an answer with \<open>expires_in = 0\<close>: the claim's formula gives
  a time to live of 5000 ms, the code takes 3600 s and stores 3540000 ms.
\<close>

theorem ttl_computation_counterexample:
  "expiresAt (the (cache (fst (snd (requestToken example_platform
       (createAlvysAccessTokenProvider (example_options (Some (example_fetch (Some 0)))) None)
       (example_options (Some (example_fetch (Some 0))))
       (initial_state :: unit provider_state, 1000)))))) = 1120 + 3540000 \<and>
   (1120::int) + 3540000 \<noteq> 1120 + max 5000 (0 * 1000 - TOKEN_EXPIRATION_BUFFER_MS integers) \<and>
   ttlMs numbers (TOKEN_EXPIRATION_BUFFER_MS numbers) (Some (Num 0)) = Num 3540000"
  by (simp add: provider_defs example_defs numbers_def)

subsection \<open>Failure and retry\<close>



subsection \<open>Failures of the endpoint\<close>

text \<open>
  C8. When the fallback resolves to nothing usable, no valid credential is cached, and the
  transport answers the request with a status outside 200 to 299, the invocation fails with
  the error that carries the status, the status text and the body text of the answer, or
  the placeholder \<open><no body>\<close> if the body could not be read. The request is recorded as
  sent and the cache is left as it was.
\<close>

theorem endpoint_failure:
  assumes "reachable C P st"
    and "resolveFallbackToken C options w = (Inr fb, w1)" and "\<not> truthy fb"
    and "\<not> truthy (getCachedToken st (now C w1))"
    and "fetchImpl P = Some f" and "prepareRequest C P options w1 = (Inr req, w2)"
    and "f req w2 = (Inr resp, w3)" and "\<not> response_ok resp"
  shows "getToken C P options (st, w) =
           (Some (Inl (TokenRequestFailed (status resp) (statusText resp)
                         (case body_text resp of Inl e \<Rightarrow> ''<no body>'' | Inr s \<Rightarrow> s))),
            st\<lparr>sent := req # sent st\<rparr>, w3)"
proof -
  from reachable_inv[OF assms(1)] have nf: "inFlight st = None" by simp
  have "requestToken C P options (st\<lparr>inFlight := Some ()\<rparr>, w1) =
          (Inl (TokenRequestFailed (status resp) (statusText resp)
                  (case body_text resp of Inl e \<Rightarrow> ''<no body>'' | Inr s \<Rightarrow> s)),
           st\<lparr>inFlight := Some (), sent := req # sent st\<rparr>, w3)"
    using assms(5-8) by (simp add: requestToken_def readResponse_def)
  with getToken_refresh[OF nf assms(2,3,4), of P] nf show ?thesis by simp
qed

theorem endpoint_failure_witness:
  "\<not> response_ok unavailable \<and>
   getToken example_platform
     (createAlvysAccessTokenProvider (example_options (Some flaky_fetch)) None)
     (example_options (Some flaky_fetch)) (initial_state, 1000)
   = (Some (Inl (TokenRequestFailed 503 ''Service Unavailable'' ''<no body>'')),
      \<lparr> cache = None, inFlight = None, sent = [example_request ''id''] \<rparr>, 1120)"
proof -
  let ?O = "example_options (Some flaky_fetch)"
  let ?P = "createAlvysAccessTokenProvider ?O None"
  have f: "resolveFallbackToken example_platform ?O 1000 = (Inr None, 1000)"
    by (simp add: provider_defs example_defs)
  have n: "\<not> truthy None" by (simp add: truthy_def)
  have c: "\<not> truthy (getCachedToken (initial_state :: unit provider_state) (now example_platform 1000))"
    by (simp add: provider_defs)
  have p: "fetchImpl ?P = Some flaky_fetch"
    by (simp add: provider_defs example_defs)
  have q: "prepareRequest example_platform ?P ?O 1000 = (Inr (example_request ''id''), 1000)"
    by (simp add: provider_defs example_defs)
  have a: "flaky_fetch (example_request ''id'') 1000 = (Inr unavailable, 1120)"
    by (simp add: example_defs)
  have b: "\<not> response_ok unavailable"
    by (simp add: response_ok_def example_defs)
  from endpoint_failure[OF reachable_initial f n c p q a b] b
  show ?thesis by (simp add: unavailable_def initial_state_def)
qed

subsection \<open>What is resolved when\<close>

text \<open>
  C9, as amended. Let the provider be built from the options \<open>options0\<close>, while
  \<open>globalThis.fetch\<close> is \<open>globalFetch\<close>, and let \<open>options\<close> be what the options object holds
  when the provider is invoked.
  \<^item> The fallback token is resolved on every invocation: its factory, as \<open>options\<close> holds
    it, is invoked in the world of the invocation, and what it yields there is returned.
  \<^item> The client id and secret are resolved on every run of \<open>requestToken\<close>: their
    factories, as \<open>options\<close> holds them, are invoked in the world of that run, and what they
    yield there is what the request carries.
  \<^item> The audience, the scope, the buffer and the transport are those of \<open>options0\<close>: the
    request carries the audience and the scope that \<open>options0\<close> configured (the default
    audience, no scope, if it configured none), it is handed to the transport of \<open>options0\<close>
    (\<open>globalFetch\<close> if it had none), and the credential is stored with the expiry that the
    buffer of \<open>options0\<close> gives (60000 if it had none).
  \<^item> What \<open>options\<close> holds for these four at the time of an invocation is not read.
\<close>

theorem configuration_resolution:
  "(\<forall>g t w1. fallbackToken options = Some (Factory g) \<and> g w = (Inr (Some t), w1) \<and> t \<noteq> [] \<longrightarrow>
      getToken C (createAlvysAccessTokenProvider options0 globalFetch) options (st, w)
        = (Some (Inr t), st, w1)) \<and>
   (\<forall>g1 g2 cid csec w1 w2 f req resp w3 data t.
      clientId options = Some (Factory g1) \<and> g1 w = (Inr (Some cid), w1) \<and> cid \<noteq> [] \<and>
      clientSecret options = Some (Factory g2) \<and> g2 w1 = (Inr (Some csec), w2) \<and> csec \<noteq> [] \<and>
      (case fetch options0 of Some h \<Rightarrow> Some h | None \<Rightarrow> globalFetch) = Some f \<and>
      req = \<lparr> url = ''https://auth.alvys.com/oauth/token'', http_method = ''POST'',
              content_type = ''application/json'',
              body = \<lparr> client_id = cid, client_secret = csec,
                       pl_audience = (case audience options0 of
                                        Some a \<Rightarrow> a
                                      | None \<Rightarrow> ''https://api.alvys.com/public/''),
                       grant_type = ''client_credentials'',
                       pl_scope = (case scope options0 of
                                     None \<Rightarrow> None
                                   | Some (ScopeString s) \<Rightarrow> if s = [] then None else Some s
                                   | Some (ScopeArray xs) \<Rightarrow>
                                       if join_space xs = [] then None
                                       else Some (join_space xs)) \<rparr> \<rparr> \<and>
      f req w2 = (Inr resp, w3) \<and> response_ok resp \<and> body_json resp = Inr data \<and>
      access_token data = Some t \<and> t \<noteq> [] \<longrightarrow>
      requestToken C (createAlvysAccessTokenProvider options0 globalFetch) options (st', w) =
        (Inr t,
         st'\<lparr>sent := req # sent st',
             cache := Some \<lparr> token = t,
                             expiresAt = now C w3 + max 5000
                               ((case expires_in data of
                                   Some n \<Rightarrow> if 0 < n then n else 3600
                                 | None \<Rightarrow> 3600) * 1000
                                - (case expirationBufferMs options0 of
                                     Some b \<Rightarrow> b
                                   | None \<Rightarrow> 60000)) \<rparr>\<rparr>,
         w3)) \<and>
   getToken C (createAlvysAccessTokenProvider options0 globalFetch)
       (options\<lparr>audience := a, scope := s, fetch := ft, expirationBufferMs := b\<rparr>) (st, w)
     = getToken C (createAlvysAccessTokenProvider options0 globalFetch) options (st, w)"
proof -
  let ?P = "createAlvysAccessTokenProvider options0 globalFetch"
  have A: "getToken C ?P options (st, w) = (Some (Inr t), st, w1)"
    if "fallbackToken options = Some (Factory g)" and "g w = (Inr (Some t), w1)" and "t \<noteq> []"
    for g t w1
    using that by (simp add: getToken_def resolveFallbackToken_def nullish_def truthy_def)
  have B: "requestToken C ?P options (st', w) =
        (Inr t,
         st'\<lparr>sent := req # sent st',
             cache := Some \<lparr> token = t,
                             expiresAt = now C w3 + max 5000
                               ((case expires_in data of
                                   Some n \<Rightarrow> if 0 < n then n else 3600
                                 | None \<Rightarrow> 3600) * 1000
                                - (case expirationBufferMs options0 of
                                     Some b \<Rightarrow> b
                                   | None \<Rightarrow> 60000)) \<rparr>\<rparr>,
         w3)"
    if c1: "clientId options = Some (Factory g1)" and c2: "g1 w = (Inr (Some cid), w1)"
      and c3: "cid \<noteq> []"
      and s1: "clientSecret options = Some (Factory g2)" and s2: "g2 w1 = (Inr (Some csec), w2)"
      and s3: "csec \<noteq> []"
      and tr: "(case fetch options0 of Some h \<Rightarrow> Some h | None \<Rightarrow> globalFetch) = Some f"
      and rq: "req = \<lparr> url = ''https://auth.alvys.com/oauth/token'', http_method = ''POST'',
              content_type = ''application/json'',
              body = \<lparr> client_id = cid, client_secret = csec,
                       pl_audience = (case audience options0 of
                                        Some a \<Rightarrow> a
                                      | None \<Rightarrow> ''https://api.alvys.com/public/''),
                       grant_type = ''client_credentials'',
                       pl_scope = (case scope options0 of
                                     None \<Rightarrow> None
                                   | Some (ScopeString s) \<Rightarrow> if s = [] then None else Some s
                                   | Some (ScopeArray xs) \<Rightarrow>
                                       if join_space xs = [] then None
                                       else Some (join_space xs)) \<rparr> \<rparr>"
      and an: "f req w2 = (Inr resp, w3)" and ok: "response_ok resp"
      and js: "body_json resp = Inr data" and at: "access_token data = Some t" and ne: "t \<noteq> []"
    for g1 g2 cid csec w1 w2 f req resp w3 data t
  proof -
    have f: "fetchImpl ?P = Some f"
      using tr by (simp add: createAlvysAccessTokenProvider_def nullish_def)
    have b: "buildRequest ?P cid csec = req"
      unfolding rq
      by (simp add: buildRequest_def createAlvysAccessTokenProvider_def AUTH_TOKEN_URL_def
          PUBLIC_API_AUDIENCE_def truthy_def split: option.splits scope_option.splits)
    have p: "prepareRequest C ?P options w = (Inr req, w2)"
      using c1 c2 c3 s1 s2 s3
      by (simp add: prepareRequest_def resolveCredentials_def resolveClientId_def
          resolveClientSecret_def nullish_def truthy_def b)
    have ttl: "ttlMs integers (p_expirationBufferMs ?P) (expires_in data) =
                 max 5000 ((case expires_in data of
                              Some n \<Rightarrow> if 0 < n then n else 3600
                            | None \<Rightarrow> 3600) * 1000
                           - (case expirationBufferMs options0 of Some b \<Rightarrow> b | None \<Rightarrow> 60000))"
      by (simp add: ttlMs_integers createAlvysAccessTokenProvider_def
          TOKEN_EXPIRATION_BUFFER_MS_def split: option.splits) (simp add: integers_def)
    show ?thesis
      using f p an ok js at ne
      by (simp add: requestToken_def readResponse_def truthy_def ttl) (simp add: integers_def)
  qed
  have D: "getToken C ?P (options\<lparr>audience := a, scope := s, fetch := ft, expirationBufferMs := b\<rparr>) (st, w)
             = getToken C ?P options (st, w)"
  proof -
    have pr: "prepareRequest C ?P (options\<lparr>audience := a, scope := s, fetch := ft, expirationBufferMs := b\<rparr>)
                = prepareRequest C ?P options"
      by (rule ext) (simp add: prepareRequest_def resolveCredentials_def
          resolveClientId_def resolveClientSecret_def)
    have rt: "requestToken C ?P (options\<lparr>audience := a, scope := s, fetch := ft, expirationBufferMs := b\<rparr>)
                = requestToken C ?P options"
      by (rule ext) (simp add: requestToken_def pr cong: option.case_cong prod.case_cong)
    have fb: "resolveFallbackToken C (options\<lparr>audience := a, scope := s, fetch := ft, expirationBufferMs := b\<rparr>)
                = resolveFallbackToken C options"
      by (rule ext) (simp add: resolveFallbackToken_def)
    show ?thesis
      by (simp add: getToken_def rt fb cong: if_cong prod.case_cong sum.case_cong)
  qed
  from A B D show ?thesis by blast
qed

text \<open>
  A provider built with an audience, two scopes and a buffer of 30 s, invoked after the
  options object has been given another audience, no scope, no transport and no buffer:
  the request carries the audience and the scopes of the construction and goes to its
  transport, the expiry is computed with its buffer, and the client id is the one that the
  factory yields when the request is made.
\<close>

theorem configuration_resolution_witness:
  "getToken example_platform (createAlvysAccessTokenProvider factory_options None) factory_options
     (cached_state, 1000) = (Some (Inr ''manual''), cached_state, 1000) \<and>
   requestToken example_platform (createAlvysAccessTokenProvider configured_options None)
     reassigned_options (initial_state :: unit provider_state, 1000)
     = (Inr ''tok'',
        \<lparr> cache = Some \<lparr> token = ''tok'', expiresAt = 3571120 \<rparr>, inFlight = None,
          sent = [configured_request ''id''] \<rparr>, 1120) \<and>
   requestToken example_platform (createAlvysAccessTokenProvider configured_options None)
     reassigned_options (initial_state :: unit provider_state, 2500)
     = (Inr ''tok'',
        \<lparr> cache = Some \<lparr> token = ''tok'', expiresAt = 3572620 \<rparr>, inFlight = None,
          sent = [configured_request ''id2''] \<rparr>, 2620)"
proof -
  let ?P = "createAlvysAccessTokenProvider configured_options None"
  let ?g1 = "\<lambda>w::int. (Inr (Some (if w < 2000 then ''id'' else ''id2'')) :: error + string option, w)"
  let ?g2 = "\<lambda>w::int. (Inr (Some ''secret'') :: error + string option, w)"
  let ?D = "\<lparr> access_token = Some ''tok'', expires_in = Some 3600 \<rparr>"
  note T = configuration_resolution[of factory_options 1000 example_platform factory_options None
      cached_state]
  have 1: "getToken example_platform (createAlvysAccessTokenProvider factory_options None)
             factory_options (cached_state, 1000) = (Some (Inr ''manual''), cached_state, 1000)"
    by (rule T[THEN conjunct1, rule_format, of "\<lambda>w. (Inr (Some ''manual''), w)"])
       (simp add: factory_options_def)
  note U = configuration_resolution[of reassigned_options _ example_platform configured_options
      None _ "initial_state :: unit provider_state", THEN conjunct2, THEN conjunct1, rule_format]
  have 2: "requestToken example_platform ?P reassigned_options (initial_state :: unit provider_state, 1000)
     = (Inr ''tok'',
        \<lparr> cache = Some \<lparr> token = ''tok'', expiresAt = 3571120 \<rparr>, inFlight = None,
          sent = [configured_request ''id''] \<rparr>, 1120)"
    using U[of ?g1 1000 "''id''" 1000 ?g2 "''secret''" 1000 "example_fetch (Some 3600)"
        "configured_request ''id''" "example_response (Some 3600)" 1120 ?D "''tok''"]
    by (simp add: example_defs initial_state_def response_ok_def)
  have 3: "requestToken example_platform ?P reassigned_options (initial_state :: unit provider_state, 2500)
     = (Inr ''tok'',
        \<lparr> cache = Some \<lparr> token = ''tok'', expiresAt = 3572620 \<rparr>, inFlight = None,
          sent = [configured_request ''id2''] \<rparr>, 2620)"
    using U[of ?g1 2500 "''id2''" 2500 ?g2 "''secret''" 2500 "example_fetch (Some 3600)"
        "configured_request ''id2''" "example_response (Some 3600)" 2620 ?D "''tok''"]
    by (simp add: example_defs initial_state_def response_ok_def)
  from 1 2 3 show ?thesis by simp
qed

text \<open>
  C9 as it was stated fails for the transport and the audience. A provider built while no
  transport was there throws on every attempt, also once the options object has one; and a
  provider built with the default audience keeps sending it after the options object has
  been given another.
\<close>

theorem configuration_resolution_counterexample:
  "getToken example_platform (createAlvysAccessTokenProvider (example_options None) None)
     (example_options (Some (example_fetch (Some 3600)))) (initial_state, 1000)
     = (Some (Inl FetchRequired), initial_state, 1000) \<and>
   map (\<lambda>r. pl_audience (body r)) (sent (fst (snd (getToken example_platform
     (createAlvysAccessTokenProvider (example_options (Some (example_fetch (Some 3600)))) None)
     ((example_options (Some (example_fetch (Some 3600))))\<lparr>audience := Some ''https://other/''\<rparr>)
     (initial_state, 1000))))) = [PUBLIC_API_AUDIENCE] \<and>
   PUBLIC_API_AUDIENCE \<noteq> ''https://other/''"
  by (simp add: provider_defs example_defs)

section \<open>Properties of the request client\<close>

subsection \<open>The platform's checks, character by character\<close>

lemma lower_char_fold:
  "\<forall>c. lower_char c =
        (case map_of (zip upper_case_letters lower_case_letters) c of Some l \<Rightarrow> l | None \<Rightarrow> c)"
  by code_simp

lemma token_char_characters: "\<forall>c. token_char c = (c \<in> set name_characters)"
  by code_simp

lemma http_whitespace_characters:
  "\<forall>c. http_whitespace c = (c \<in> {CHR 0x09, CHR 0x0A, CHR 0x0D, CHR '' ''})"
  by code_simp

lemma forbidden_characters:
  "\<forall>c. (of_char c \<noteq> (0::nat) \<and> of_char c \<noteq> (10::nat) \<and> of_char c \<noteq> (13::nat)) =
        (c \<notin> {CHR 0x00, CHR 0x0A, CHR 0x0D})"
  by code_simp

lemma lowercase_fold_case: "lowercase name = fold_case name"
  using lower_char_fold by (simp add: lowercase_def fold_case_def)

lemma dropWhile_strip_left: "dropWhile http_whitespace v = strip_left v"
  using http_whitespace_characters by (induction v) simp_all

lemma normalize_value_stripped: "normalize_value v = stripped v"
  by (simp add: normalize_value_def stripped_def dropWhile_strip_left)

lemma header_name_characters:
  "header_name name = (name \<noteq> [] \<and> set name \<subseteq> set name_characters)"
  using token_char_characters by (auto simp: header_name_def list_all_iff)

lemma header_value_characters:
  "header_value v = (set v \<inter> {CHR 0x00, CHR 0x0A, CHR 0x0D} = {})"
proof -
  have "header_value v = (\<forall>c \<in> set v. c \<notin> {CHR 0x00, CHR 0x0A, CHR 0x0D})"
    using forbidden_characters by (simp add: header_value_def list_all_iff)
  then show ?thesis by blast
qed

lemma Headers_set_acceptable:
  "Headers_set name v h =
     (if acceptable (name, v) then Inr (headers_put (fold_case name) (stripped v) h)
      else Inl TypeError)"
  by (simp add: Headers_set_def acceptable_def header_name_characters header_value_characters
      normalize_value_stripped lowercase_fold_case)

lemma startsWith_prefix: "startsWith s p = prefix p s"
  by (auto simp: startsWith_def prefix_def) (metis append_take_drop_id)

subsection \<open>The \<open>Headers\<close> object as a mapping\<close>

lemma map_of_headers_put: "map_of (headers_put k v h) = (map_of h)(k \<mapsto> v)"
  by (induction h) (auto simp: fun_eq_iff)

lemma keys_headers_put: "fst ` set (headers_put k v h) = insert k (fst ` set h)"
proof (induction h)
  case Nil
  then show ?case by simp
next
  case (Cons a h)
  obtain k' x where a: "a = (k', x)" by force
  show ?case
  proof (cases "k' = k")
    case True
    with a show ?thesis by simp
  next
    case False
    with a Cons show ?thesis by (simp add: insert_commute)
  qed
qed

lemma distinct_headers_put:
  "distinct (map fst h) \<Longrightarrow> distinct (map fst (headers_put k v h))"
proof (induction h)
  case Nil
  then show ?case by simp
next
  case (Cons a h)
  obtain k' x where a: "a = (k', x)" by force
  with Cons keys_headers_put[of k v h] show ?case by auto
qed

lemma headers_put_not_Nil: "headers_put k v h \<noteq> []"
  by (cases "(k, v, h)" rule: headers_put.cases) simp_all

lemma layer_Nil: "layer [] = Map.empty"
  by (simp add: layer_def)

lemma layer_Cons: "layer (p # ps) = [fold_case (fst p) \<mapsto> stripped (snd p)] ++ layer ps"
  by (simp add: layer_def map_of_append)

lemma layer_append: "layer (a @ b) = layer a ++ layer b"
  by (simp add: layer_def map_of_append)

lemma layer_empty: "layer ws = Map.empty \<longleftrightarrow> ws = []"
proof (cases ws rule: rev_cases)
  case Nil
  then show ?thesis by (simp add: layer_Nil)
next
  case (snoc ys y)
  have "layer (ys @ [y]) (fold_case (fst y)) = Some (stripped (snd y))"
    by (simp add: layer_def)
  with snoc show ?thesis by auto
qed

lemma upd_add: "m ++ ([k \<mapsto> v] ++ n) = m(k \<mapsto> v) ++ n"
  by (auto simp: fun_eq_iff map_add_def split: option.splits)

lemma map_of_written: "map_of (written ws h) = map_of h ++ layer ws"
  unfolding written_def
  by (induction ws arbitrary: h) (simp_all add: layer_Nil layer_Cons map_of_headers_put upd_add)

lemma distinct_written: "distinct (map fst h) \<Longrightarrow> distinct (map fst (written ws h))"
  unfolding written_def
  by (induction ws arbitrary: h) (simp_all add: distinct_headers_put)

lemma written_append: "written (a @ b) h = written b (written a h)"
  by (simp add: written_def)

lemma written_not_Nil: "h \<noteq> [] \<Longrightarrow> written ws h \<noteq> []"
  unfolding written_def
  by (induction ws arbitrary: h) (simp_all add: headers_put_not_Nil)

lemma written_Nil: "written ws [] = [] \<longleftrightarrow> ws = []"
proof (cases ws)
  case Nil
  then show ?thesis by (simp add: written_def)
next
  case (Cons p ps)
  have "written (p # ps) [] = written ps [(fold_case (fst p), stripped (snd p))]"
    by (simp add: written_def)
  moreover have "written ps [(fold_case (fst p), stripped (snd p))] \<noteq> []"
    by (rule written_not_Nil) simp
  ultimately show ?thesis using Cons by simp
qed

subsection \<open>Merging, write by write\<close>

lemma set_each_written:
  "set_each ps h =
     (if list_all acceptable (given_headers (Some (PairArray ps)))
      then Inr (written (given_headers (Some (PairArray ps))) h)
      else Inl TypeError)"
proof (induction ps arbitrary: h)
  case Nil
  then show ?case by (simp add: written_def)
next
  case (Cons p ps)
  obtain k v where p: "p = (k, v)" by force
  show ?case
  proof (cases v)
    case None
    with p Cons.IH[of h] show ?thesis by simp
  next
    case (Some x)
    show ?thesis
    proof (cases "acceptable (k, x)")
      case True
      with p Some Cons.IH[of "headers_put (fold_case k) (stripped x) h"] show ?thesis
        by (simp add: Headers_set_acceptable written_def)
    next
      case False
      with p Some show ?thesis by (simp add: Headers_set_acceptable)
    qed
  qed
qed

lemma given_entries:
  "given_headers (Some (PairArray (map (\<lambda>kv. (fst kv, Some (snd kv))) es))) = es"
  by (induction es) simp_all

lemma set_each_entries:
  "set_each (map (\<lambda>kv. (fst kv, Some (snd kv))) es) h =
     (if list_all acceptable es then Inr (written es h) else Inl TypeError)"
  using set_each_written[of "map (\<lambda>kv. (fst kv, Some (snd kv))) es" h]
  by (simp only: given_entries)

lemma mergeIntoHeaders_written:
  "mergeIntoHeaders h src =
     (if list_all acceptable (given_headers src) then Inr (written (given_headers src) h)
      else Inl TypeError)"
proof (cases "(h, src)" rule: mergeIntoHeaders.cases)
  case (1 target)
  then show ?thesis by (simp add: written_def)
next
  case (2 target es)
  with set_each_entries[of es h] show ?thesis by simp
next
  case (3 target ps)
  with set_each_written[of ps h] show ?thesis by simp
next
  case (4 target ps)
  with set_each_written[of ps h] show ?thesis by simp
qed

lemma authorization_written:
  "(if truthy tok
    then Headers_set ''Authorization''
           (if startsWith (the tok) ''Bearer '' then the tok else ''Bearer '' @ the tok) h
    else Inr h) =
   (if list_all acceptable (authorization tok) then Inr (written (authorization tok) h)
    else Inl TypeError)"
  by (cases tok)
     (simp_all add: truthy_def authorization_def startsWith_prefix Headers_set_acceptable
        written_def)

lemma distinct_entries:
  assumes "distinct (map fst h)"
  shows "distinct (map fst (Headers_entries h))"
proof -
  have "card (fst ` set h) = length h"
    using assms distinct_card[of "map fst h"] by simp
  then have "card (set (map fst (Headers_entries h))) = length (map fst (Headers_entries h))"
    by (simp add: Headers_entries_def)
  then show ?thesis by (rule card_distinct)
qed

lemma map_of_entries:
  assumes "distinct (map fst h)"
  shows "map_of (Headers_entries h) = map_of h"
  using map_of_inject_set[OF distinct_entries[OF assms] assms]
  by (simp add: Headers_entries_def)

lemma entries_Nil: "Headers_entries h = [] \<longleftrightarrow> h = []"
  using length_sort[of fst h] by (auto simp: Headers_entries_def simp del: length_sort)

lemma map_of_filter_name:
  "name \<noteq> k \<Longrightarrow> map_of (filter (\<lambda>kv. fst kv \<noteq> k) xs) name = map_of xs name"
  by (induction xs) auto

lemma headersToObject_lookup:
  assumes "distinct (map fst h)" and "name \<noteq> ''__proto__''"
  shows "map_of (headersToObject h) name = map_of h name"
  using map_of_filter_name[OF assms(2), of "Headers_entries h"] map_of_entries[OF assms(1)]
  by (simp add: headersToObject_def)

lemma headersToObject_distinct:
  assumes "distinct (map fst h)"
  shows "distinct (map fst (headersToObject h))"
  unfolding headersToObject_def by (rule distinct_map_filter[OF distinct_entries[OF assms]])

lemma composed_spec_writes:
  "composed_spec defaults tok requestHeaders = layer (writes defaults tok requestHeaders)"
  by (simp add: composed_spec_def writes_def layer_append)

text \<open>
  What \<open>buildHeaders\<close> resolves to, once the default headers and the access token have
  resolved: the \<open>TypeError\<close> of the first write that the platform does not accept, or the
  object made of the \<open>Headers\<close> object that the writes have left.
\<close>

lemma buildHeaders_written:
  assumes "resolveValue (defaultHeaders options) w = (Inr defaults, w1)"
    and "resolveValue (accessToken options) w1 = (Inr tok, w2)"
  shows "buildHeaders options requestHeaders w =
           (if \<not> list_all acceptable (given_headers defaults) then (Inl TypeError, w1)
            else if \<not> list_all acceptable (writes defaults tok requestHeaders)
            then (Inl TypeError, w2)
            else (Inr (if writes defaults tok requestHeaders = [] then None
                       else Some (headersToObject
                                    (written (writes defaults tok requestHeaders) []))), w2))"
proof -
  let ?D = "given_headers defaults"
  let ?A = "authorization tok"
  let ?R = "given_headers requestHeaders"
  let ?W = "writes defaults tok requestHeaders"
  have W: "?W = ?D @ ?A @ ?R" by (simp add: writes_def)
  show ?thesis
  proof (cases "list_all acceptable ?D")
    case False
    with assms(1) show ?thesis
      by (simp add: buildHeaders_def mergeIntoHeaders_written)
  next
    case D: True
    show ?thesis
    proof (cases "list_all acceptable ?A")
      case False
      with D assms show ?thesis
        by (simp add: buildHeaders_def mergeIntoHeaders_written authorization_written W)
    next
      case A: True
      show ?thesis
      proof (cases "list_all acceptable ?R")
        case False
        with D A assms show ?thesis
          by (simp add: buildHeaders_def mergeIntoHeaders_written authorization_written W)
      next
        case R: True
        have h: "written ?R (written ?A (written ?D [])) = written ?W []"
          by (simp add: W written_append)
        have "buildHeaders options requestHeaders w =
                (Inr (if Headers_entries (written ?W []) \<noteq> []
                      then Some (headersToObject (written ?W [])) else None), w2)"
          using D A R assms
          by (simp add: buildHeaders_def mergeIntoHeaders_written authorization_written h)
        moreover have "Headers_entries (written ?W []) \<noteq> [] \<longleftrightarrow> ?W \<noteq> []"
          by (simp add: entries_Nil written_Nil)
        moreover from D A R have "list_all acceptable ?W" by (simp add: W)
        ultimately show ?thesis using D by simp
      qed
    qed
  qed
qed

subsection \<open>Header composition\<close>

text \<open>
  C6, as amended. Let the default headers and the access token have resolved. The headers
  written are those of the resolved default headers, the one of \<open>Authorization\<close> (\<open>Bearer\<close>
  and the token if the token is not empty, the token itself if it already starts with
  \<open>Bearer\<close> and a space, none if there is no token), and those of the request; an entry
  whose value is \<open>undefined\<close> or \<open>null\<close> is not a header and writes nothing.
  \<^item> If the platform accepts every header that is written, \<open>buildHeaders\<close> resolves to the
    composed header set: for every name other than \<open>__proto__\<close>, the value under that name
    is the one of the last write whose name is that name up to case, without its
    surrounding whitespace. The result has one entry per name, and it is \<open>undefined\<close>
    exactly when nothing is written.
  \<^item> If the platform does not accept one of them, \<open>buildHeaders\<close> throws its \<open>TypeError\<close>:
    there is no composed set.
\<close>

theorem header_composition:
  assumes "resolveValue (defaultHeaders options) w = (Inr defaults, w1)"
    and "resolveValue (accessToken options) w1 = (Inr tok, w2)"
  shows "(list_all acceptable (writes defaults tok requestHeaders) \<longrightarrow>
            (\<exists>result.
               buildHeaders options requestHeaders w = (Inr result, w2) \<and>
               (case result of
                  None \<Rightarrow> composed_spec defaults tok requestHeaders = Map.empty
                | Some obj \<Rightarrow>
                    composed_spec defaults tok requestHeaders \<noteq> Map.empty \<and>
                    distinct (map fst obj) \<and>
                    (\<forall>name. name \<noteq> ''__proto__'' \<longrightarrow>
                       map_of obj name = composed_spec defaults tok requestHeaders name)))) \<and>
         (\<not> list_all acceptable (writes defaults tok requestHeaders) \<longrightarrow>
            buildHeaders options requestHeaders w =
              (Inl TypeError, if list_all acceptable (given_headers defaults) then w2 else w1))"
proof -
  let ?W = "writes defaults tok requestHeaders"
  note b = buildHeaders_written[OF assms(1,2), of requestHeaders]
  have d: "distinct (map fst (written ?W []))" by (rule distinct_written) simp
  have 1: "\<exists>result.
             buildHeaders options requestHeaders w = (Inr result, w2) \<and>
             (case result of
                None \<Rightarrow> composed_spec defaults tok requestHeaders = Map.empty
              | Some obj \<Rightarrow>
                  composed_spec defaults tok requestHeaders \<noteq> Map.empty \<and>
                  distinct (map fst obj) \<and>
                  (\<forall>name. name \<noteq> ''__proto__'' \<longrightarrow>
                     map_of obj name = composed_spec defaults tok requestHeaders name))"
    if acc: "list_all acceptable ?W"
  proof -
    from acc have a: "list_all acceptable (given_headers defaults)"
      by (simp add: writes_def)
    show ?thesis
    proof (cases "?W = []")
      case True
      with b a acc have "buildHeaders options requestHeaders w = (Inr None, w2)" by simp
      moreover from True have "composed_spec defaults tok requestHeaders = Map.empty"
        by (simp add: composed_spec_writes layer_Nil)
      ultimately show ?thesis by simp
    next
      case False
      with b a acc
      have "buildHeaders options requestHeaders w =
              (Inr (Some (headersToObject (written ?W []))), w2)" by simp
      moreover from False have "composed_spec defaults tok requestHeaders \<noteq> Map.empty"
        by (simp add: composed_spec_writes layer_empty)
      moreover have "distinct (map fst (headersToObject (written ?W [])))"
        by (rule headersToObject_distinct[OF d])
      moreover have "map_of (headersToObject (written ?W [])) name =
                       composed_spec defaults tok requestHeaders name"
        if "name \<noteq> ''__proto__''" for name
        using headersToObject_lookup[OF d that]
        by (simp add: map_of_written composed_spec_writes)
      ultimately show ?thesis by simp
    qed
  qed
  have 2: "buildHeaders options requestHeaders w =
             (Inl TypeError, if list_all acceptable (given_headers defaults) then w2 else w1)"
    if "\<not> list_all acceptable ?W"
    using that b by simp
  from 1 2 show ?thesis by blast
qed

text \<open>The results of some concrete calls.\<close>

lemma example_calls:
  "list_all acceptable (writes (Some (PlainObject [(''A'', Some ''1'')])) (Some ''tok'')
     (Some example_headers))"
  "buildHeaders example_client (Some example_headers) 0
     = (Inr (Some [(''a'', ''2''), (''authorization'', ''X'')]), 0)"
  "\<not> list_all acceptable (writes None None (headers misnamed_bag))"
  "buildHeaders bare_client (headers misnamed_bag) 0 = (Inl TypeError, 0)"
  "buildHeaders padded_client None 0 = (Inr (Some [(''authorization'', ''Bearer abc'')]), 0)"
  "buildHeaders proto_client None 0 = (Inr (Some []), 0)"
  "writes None None (Some (PlainObject [])) = []"
  "writes None None None = []"
  "buildHeaders bare_client (headers empty_headers_bag) 0 = (Inr None, 0)"
  by code_simp+

theorem header_composition_witness:
  "list_all acceptable (writes (Some (PlainObject [(''A'', Some ''1'')])) (Some ''tok'')
     (Some example_headers)) \<and>
   buildHeaders example_client (Some example_headers) 0
     = (Inr (Some [(''a'', ''2''), (''authorization'', ''X'')]), 0) \<and>
   composed_spec (Some (PlainObject [(''A'', Some ''1'')])) (Some ''tok'') (Some example_headers)
     ''a'' = Some ''2'' \<and>
   composed_spec (Some (PlainObject [(''A'', Some ''1'')])) (Some ''tok'') (Some example_headers)
     ''authorization'' = Some ''X'' \<and>
   \<not> list_all acceptable (writes None None (headers misnamed_bag)) \<and>
   buildHeaders bare_client (headers misnamed_bag) 0 = (Inl TypeError, 0)"
proof -
  have d: "resolveValue (defaultHeaders example_client) 0
             = (Inr (Some (PlainObject [(''A'', Some ''1'')])), 0)"
    by (simp add: example_client_def)
  have t: "resolveValue (accessToken example_client) 0 = (Inr (Some ''tok''), 0)"
    by (simp add: example_client_def)
  have d0: "resolveValue (defaultHeaders bare_client) 0 = (Inr None, 0)"
    and t0: "resolveValue (accessToken bare_client) 0 = (Inr None, 0)"
    by (simp_all add: bare_client_def)
  have n: "''a'' \<noteq> ''__proto__''" "''authorization'' \<noteq> ''__proto__''" by simp_all
  from header_composition[OF d t, of "Some example_headers", THEN conjunct1, rule_format,
      OF example_calls(1)] example_calls(2)
  have "\<forall>name. name \<noteq> ''__proto__'' \<longrightarrow>
          map_of [(''a'', ''2''), (''authorization'', ''X'')] name =
          composed_spec (Some (PlainObject [(''A'', Some ''1'')])) (Some ''tok'')
            (Some example_headers) name"
    by auto
  from this[rule_format, OF n(1)] this[rule_format, OF n(2)]
  have 1: "composed_spec (Some (PlainObject [(''A'', Some ''1'')])) (Some ''tok'')
             (Some example_headers) ''a'' = Some ''2''"
    and 2: "composed_spec (Some (PlainObject [(''A'', Some ''1'')])) (Some ''tok'')
             (Some example_headers) ''authorization'' = Some ''X''"
    by simp_all
  from header_composition[OF d0 t0, of "headers misnamed_bag", THEN conjunct2, rule_format,
      OF example_calls(3)]
  have 3: "buildHeaders bare_client (headers misnamed_bag) 0 = (Inl TypeError, 0)"
    by simp
  from 1 2 3 example_calls(1,2,3) show ?thesis by simp
qed

text \<open>
  C6 as it was stated fails where the platform does not take a header as it is given. A
  header of the request whose name has a space in it makes \<open>buildHeaders\<close> throw, so that
  there is no composed set; and for a token that ends with a space the composed set has
  \<open>Authorization\<close> without that space, which is not \<open>Bearer\<close> and the token.
\<close>

theorem header_composition_counterexample:
  "headers misnamed_bag = Some (PlainObject [(''bad name'', Some ''1'')]) \<and>
   buildHeaders bare_client (headers misnamed_bag) 0 = (Inl TypeError, 0) \<and>
   buildHeaders padded_client None 0 = (Inr (Some [(''authorization'', ''Bearer abc'')]), 0) \<and>
   ''Bearer abc'' \<noteq> ''Bearer '' @ ''abc ''"
  using example_calls(4,5) by (simp add: misnamed_bag_def)

text \<open>
  A default header named \<open>__proto__\<close> is accepted and written, and the object that
  \<open>buildHeaders\<close> resolves to does not have it: the object is empty.
\<close>

lemma header_lost:
  "list_all acceptable (writes (Some (PlainObject [(''__proto__'', Some ''x'')])) None None) \<and>
   composed_spec (Some (PlainObject [(''__proto__'', Some ''x'')])) None None ''__proto__''
     = Some ''x'' \<and>
   buildHeaders proto_client None 0 = (Inr (Some []), 0)"
proof -
  have "list_all acceptable (writes (Some (PlainObject [(''__proto__'', Some ''x'')])) None None)"
    by code_simp
  moreover have "composed_spec (Some (PlainObject [(''__proto__'', Some ''x'')])) None None
                   ''__proto__'' = Some ''x''"
    by (simp add: composed_spec_def authorization_def layer_def fold_case_def)
       code_simp
  ultimately show ?thesis using example_calls(6) by simp
qed

subsection \<open>Delegation\<close>

text \<open>
  C7, as amended. Let the default headers and the access token have resolved.
  \<^item> If nothing is written, the composed header set is empty: the executor is called with
    the caller's option bag as it is, and with the endpoint alone if the caller gave no
    bag; the wrapper adds no headers field, and the bag keeps the one the caller gave it,
    if any.
  \<^item> If headers are written and the platform accepts them all, the executor is called with
    a bag whose headers field is the object that \<open>buildHeaders\<close> resolved to and whose
    other fields are the caller's, none if the caller gave no bag.
  \<^item> If the platform does not accept one of the headers, the call fails with its
    \<open>TypeError\<close> and the executor is not called; the access token has been resolved unless
    the header is one of the default headers.
\<close>

theorem delegation_frame:
  assumes "resolveValue (defaultHeaders options) w = (Inr defaults, w1)"
    and "resolveValue (accessToken options) w1 = (Inr tok, w2)"
    and "requestHeaders = (case opts of None \<Rightarrow> None | Some b \<Rightarrow> headers b)"
  shows "(writes defaults tok requestHeaders = [] \<longrightarrow>
            wrap options (Arguments u opts) w =
              (Inr (case opts of None \<Rightarrow> CallUrl u | Some b \<Rightarrow> CallUrlOptions u b), w2)) \<and>
         (writes defaults tok requestHeaders \<noteq> [] \<and>
          list_all acceptable (writes defaults tok requestHeaders) \<longrightarrow>
            (\<exists>obj. buildHeaders options requestHeaders w = (Inr (Some obj), w2) \<and>
                   wrap options (Arguments u opts) w =
                     (Inr (CallUrlOptions u
                        \<lparr> headers = Some (asObject obj),
                          others = (case opts of None \<Rightarrow> Map.empty | Some b \<Rightarrow> others b) \<rparr>),
                      w2))) \<and>
         (\<not> list_all acceptable (writes defaults tok requestHeaders) \<longrightarrow>
            wrap options (Arguments u opts) w =
              (Inl TypeError, if list_all acceptable (given_headers defaults) then w2 else w1))"
proof -
  let ?W = "writes defaults tok requestHeaders"
  note b = buildHeaders_written[OF assms(1,2), of requestHeaders]
  have w: "wrap options (Arguments u opts) w =
             (case buildHeaders options requestHeaders w of
                (Inl e, w') \<Rightarrow> (Inl e, w')
              | (Inr (Some hs), w') \<Rightarrow>
                  (Inr (CallUrlOptions u
                          ((case opts of None \<Rightarrow> empty_object | Some b \<Rightarrow> b)
                             \<lparr>headers := Some (asObject hs)\<rparr>)), w')
              | (Inr None, w') \<Rightarrow>
                  (case opts of
                     None \<Rightarrow> (Inr (CallUrl u), w')
                   | Some b \<Rightarrow> (Inr (CallUrlOptions u b), w')))"
    by (simp add: wrap_def assms(3))
  have 1: "wrap options (Arguments u opts) w =
             (Inr (case opts of None \<Rightarrow> CallUrl u | Some b \<Rightarrow> CallUrlOptions u b), w2)"
    if "?W = []"
  proof -
    from that have "list_all acceptable ?W" and "list_all acceptable (given_headers defaults)"
      by (simp_all add: writes_def)
    with b that have "buildHeaders options requestHeaders w = (Inr None, w2)" by simp
    with w show ?thesis by (cases opts) simp_all
  qed
  have 2: "\<exists>obj. buildHeaders options requestHeaders w = (Inr (Some obj), w2) \<and>
                 wrap options (Arguments u opts) w =
                   (Inr (CallUrlOptions u
                      \<lparr> headers = Some (asObject obj),
                        others = (case opts of None \<Rightarrow> Map.empty | Some b \<Rightarrow> others b) \<rparr>),
                    w2)"
    if "?W \<noteq> []" and a: "list_all acceptable ?W"
  proof -
    from a have "list_all acceptable (given_headers defaults)" by (simp add: writes_def)
    with b that
    have "buildHeaders options requestHeaders w = (Inr (Some (headersToObject (written ?W []))), w2)"
      by simp
    with w show ?thesis by (cases opts) (simp_all add: empty_object_def)
  qed
  have 3: "wrap options (Arguments u opts) w =
             (Inl TypeError, if list_all acceptable (given_headers defaults) then w2 else w1)"
    if "\<not> list_all acceptable ?W"
    using that b w by simp
  from 1 2 3 show ?thesis by blast
qed

theorem delegation_frame_witness:
  "wrap bare_client (Arguments ''/loads'' (None :: nat bag option)) 0 = (Inr (CallUrl ''/loads''), 0) \<and>
   wrap example_client (Arguments ''/loads'' (Some example_bag)) 0 =
     (Inr (CallUrlOptions ''/loads''
        \<lparr> headers = Some (PlainObject [(''a'', Some ''2''), (''authorization'', Some ''X'')]),
          others = [''body'' \<mapsto> 7] \<rparr>), 0) \<and>
   wrap bare_client (Arguments ''/loads'' (Some misnamed_bag)) 0 = (Inl TypeError, 0)"
proof -
  have d0: "resolveValue (defaultHeaders bare_client) 0 = (Inr None, 0)"
    and t0: "resolveValue (accessToken bare_client) 0 = (Inr None, 0)"
    by (simp_all add: bare_client_def)
  have d: "resolveValue (defaultHeaders example_client) 0
             = (Inr (Some (PlainObject [(''A'', Some ''1'')])), 0)"
    and t: "resolveValue (accessToken example_client) 0 = (Inr (Some ''tok''), 0)"
    by (simp_all add: example_client_def)
  have h0: "None = (case (None :: nat bag option) of None \<Rightarrow> None | Some b \<Rightarrow> headers b)"
    and h1: "Some example_headers = (case Some example_bag of None \<Rightarrow> None | Some b \<Rightarrow> headers b)"
    and h2: "headers misnamed_bag = (case Some misnamed_bag of None \<Rightarrow> None | Some b \<Rightarrow> headers b)"
    by (simp_all add: example_bag_def)
  have ne: "writes (Some (PlainObject [(''A'', Some ''1'')])) (Some ''tok'') (Some example_headers) \<noteq> []"
    by (simp add: writes_def)
  from delegation_frame[OF d0 t0 h0, of "''/loads''"] example_calls(8)
  have 1: "wrap bare_client (Arguments ''/loads'' (None :: nat bag option)) 0 = (Inr (CallUrl ''/loads''), 0)"
    by simp
  from delegation_frame[OF d t h1, of "''/loads''"] ne example_calls(1,2)
  have 2: "wrap example_client (Arguments ''/loads'' (Some example_bag)) 0 =
     (Inr (CallUrlOptions ''/loads''
        \<lparr> headers = Some (PlainObject [(''a'', Some ''2''), (''authorization'', Some ''X'')]),
          others = [''body'' \<mapsto> 7] \<rparr>), 0)"
    by (auto simp: example_bag_def asObject_def)
  from delegation_frame[OF d0 t0 h2, of "''/loads''"] example_calls(3)
  have 3: "wrap bare_client (Arguments ''/loads'' (Some misnamed_bag)) 0 = (Inl TypeError, 0)"
    by simp
  from 1 2 3 show ?thesis by simp
qed

text \<open>
  C7 as it was stated fails for a caller who passes an empty headers object: the composed
  set is empty, and the executor receives the bag with that headers field in it. It also
  fails for a caller who passes a header whose name has a space in it: the composed set
  would not be empty, and the executor is not called at all.
\<close>

theorem delegation_frame_counterexample:
  "writes None None (headers empty_headers_bag) = [] \<and>
   wrap bare_client (Arguments ''/loads'' (Some empty_headers_bag)) 0
     = (Inr (CallUrlOptions ''/loads'' empty_headers_bag), 0) \<and>
   headers empty_headers_bag \<noteq> None \<and>
   writes None None (headers misnamed_bag) \<noteq> [] \<and>
   wrap bare_client (Arguments ''/loads'' (Some misnamed_bag)) 0 = (Inl TypeError, 0)"
proof -
  from example_calls(9) have "wrap bare_client (Arguments ''/loads'' (Some empty_headers_bag)) 0
               = (Inr (CallUrlOptions ''/loads'' empty_headers_bag), 0)"
    by (simp add: wrap_def)
  moreover from example_calls(4)
  have "wrap bare_client (Arguments ''/loads'' (Some misnamed_bag)) 0 = (Inl TypeError, 0)"
    by (simp add: wrap_def)
  ultimately show ?thesis
    by (simp add: writes_def authorization_def empty_headers_bag_def misnamed_bag_def)
qed

section \<open>Properties of interleaved invocations\<close>

subsection \<open>At most one active refresh\<close>

lemma single_flightD:
  "single_flight s \<Longrightarrow> active (tasks s p) \<Longrightarrow> inFlight (pstate s) = Some p"
  by (simp add: single_flight_def)

lemma single_flight_resume:
  assumes "single_flight s"
  shows "single_flight (resume C P options c s)"
  using assms
  by (auto simp: single_flight_def resume_def Let_def split: prod.splits sum.splits option.splits)

lemma single_flight_advance:
  assumes "single_flight s"
  shows "single_flight (advance C P options p s)"
  using assms
  by (auto simp: single_flight_def advance_def split: prod.splits sum.splits option.splits task.splits)

lemma single_flight_finally:
  assumes "single_flight s"
  shows "single_flight (runFinally p s)"
proof (cases "\<exists>r. tasks s p = Some (TaskSettled r)")
  case True
  then obtain r where r: "tasks s p = Some (TaskSettled r)" by blast
  with assms have m: "inFlight (pstate s) = Some p"
    by (simp add: single_flight_def)
  have "\<not> active (tasks s q)" if "q \<noteq> p" for q
    using assms m that by (auto simp: single_flight_def)
  with r show ?thesis
    by (simp add: single_flight_def runFinally_def)
next
  case False
  then have "runFinally p s = s"
    by (simp add: runFinally_def split: option.splits task.splits)
  with assms show ?thesis by simp
qed

lemma single_flight_step:
  "single_flight s \<Longrightarrow> single_flight (step C P options e s)"
  by (cases e)
     (simp_all add: single_flight_resume single_flight_advance single_flight_finally,
      simp_all add: single_flight_def)

lemma single_flight_run:
  "single_flight s \<Longrightarrow> single_flight (run C P options es s)"
  unfolding run_def
  by (induction es arbitrary: s) (simp_all add: single_flight_step)

lemma single_flight_initial: "single_flight (initial_config c w)"
  by (simp add: single_flight_def initial_config_def)

lemma outstanding_active: "outstanding t \<Longrightarrow> active t"
  by (cases t rule: outstanding.cases) simp_all

lemma one_outstanding:
  assumes "outstanding (tasks (run C P options es (initial_config c w)) p)"
    and "outstanding (tasks (run C P options es (initial_config c w)) q)"
  shows "p = q"
proof -
  let ?s = "run C P options es (initial_config c w)"
  have sf: "single_flight ?s" by (rule single_flight_run[OF single_flight_initial])
  have "inFlight (pstate ?s) = Some p"
    by (rule single_flightD[OF sf outstanding_active[OF assms(1)]])
  moreover have "inFlight (pstate ?s) = Some q"
    by (rule single_flightD[OF sf outstanding_active[OF assms(2)]])
  ultimately show ?thesis by simp
qed

subsection \<open>A task that awaits has a transport\<close>

lemma transport_known_step:
  "transport_known P s \<Longrightarrow> transport_known P (step C P options e s)"
proof (cases e)
  case (Resume c)
  assume "transport_known P s"
  then show ?thesis unfolding Resume
    by (auto simp: transport_known_def resume_def Let_def startTask_def
        split: prod.splits sum.splits option.splits if_splits)
next
  case (Advance p)
  assume "transport_known P s"
  then show ?thesis unfolding Advance
    by (auto simp: transport_known_def advance_def
        split: prod.splits sum.splits option.splits task.splits if_splits)
next
  case (Finally p)
  assume "transport_known P s"
  then show ?thesis unfolding Finally
    by (auto simp: transport_known_def runFinally_def
        split: prod.splits sum.splits option.splits task.splits if_splits)
qed (auto simp: transport_known_def)

lemma transport_known_run:
  "transport_known P s \<Longrightarrow> transport_known P (run C P options es s)"
  unfolding run_def by (induction es arbitrary: s) (simp_all add: transport_known_step)

lemma transport_known_initial: "transport_known P (initial_config c w)"
  by (simp add: transport_known_def initial_config_def)

subsection \<open>One refresh for all concurrent invocations\<close>

lemma missesD:
  assumes "misses C options c0 w"
  obtains fb w1 where "resolveFallbackToken C options w = (Inr fb, w1)" and "\<not> truthy fb"
    and "\<not> truthy (getCachedToken \<lparr> cache = c0, inFlight = None :: unit option, sent = [] \<rparr>
                    (now C w1))"
proof -
  obtain r w1 where a: "resolveFallbackToken C options w = (r, w1)" by force
  with assms obtain fb where "r = Inr fb" and "\<not> truthy fb"
    and "case c0 of None \<Rightarrow> True | Some c \<Rightarrow> expiresAt c \<le> now C w1"
    by (cases r) (auto simp: misses_def)
  moreover from this(3)
  have "\<not> truthy (getCachedToken \<lparr> cache = c0, inFlight = None :: unit option, sent = [] \<rparr>
                   (now C w1))"
    by (auto simp: getCachedToken_def truthy_def split: option.splits)
  ultimately show thesis using a that by simp
qed

lemma getCachedToken_cache:
  "cache ps = cache ps' \<Longrightarrow> getCachedToken ps t = getCachedToken ps' t"
  by (simp add: getCachedToken_def)

lemma miss_initial:
  assumes "\<not> truthy (getCachedToken \<lparr> cache = c0, inFlight = None :: unit option, sent = [] \<rparr> t)"
    and "cache ps = c0"
  shows "\<not> truthy (getCachedToken ps t)"
  using assms getCachedToken_cache[of ps "\<lparr> cache = c0, inFlight = None :: unit option, sent = [] \<rparr>" t]
  by simp

lemma resume_not_started:
  assumes mi: "misses C options c0 (world s)"
    and ns: "not_started c0 s"
  shows "started c0 (startTask P) (resume C P options c s)"
proof -
  obtain fb w1 where f: "resolveFallbackToken C options (world s) = (Inr fb, w1)"
    and n: "\<not> truthy fb"
    and m0: "\<not> truthy (getCachedToken \<lparr> cache = c0, inFlight = None :: unit option, sent = [] \<rparr>
                        (now C w1))"
    by (rule missesD[OF mi])
  from ns have ps: "pstate s = \<lparr> cache = c0, inFlight = None, sent = [] \<rparr>"
    and nt: "next_task s = 0" and ts: "tasks s = Map.empty"
    and cs: "\<And>c. callers s c = None \<or> callers s c = Some AwaitFallback"
    by (simp_all add: not_started_def)
  from ps have c: "cache (pstate s) = c0" by simp
  have miss: "\<not> truthy (getCachedToken (pstate s) (now C w1))"
    by (rule miss_initial[OF m0 c])
  have r: "resume C P options c s =
             s\<lparr>pstate := (pstate s)\<lparr>inFlight := Some 0\<rparr>,
               tasks := [0 \<mapsto> startTask P],
               next_task := Suc 0,
               callers := (callers s)(c \<mapsto> AwaitInFlight 0),
               world := w1\<rparr>"
    using f n miss ps nt ts by (simp add: resume_def Let_def)
  have tf: "task_facts c0 ((pstate s)\<lparr>inFlight := Some 0\<rparr>) (startTask P)"
    using ps by (simp add: startTask_def split: option.splits)
  have nfz: "\<forall>r. startTask P \<noteq> TaskFinished r"
    by (simp add: startTask_def split: option.splits)
  have cf: "caller_facts (startTask P) (((callers s)(c \<mapsto> AwaitInFlight 0)) c')" for c'
    using cs[of c'] nfz by auto
  show ?thesis
    unfolding r started_def using tf cf by simp
qed

lemma started_inFlight:
  assumes "started c0 t0 s" and "inFlight (pstate s) \<noteq> None"
  shows "inFlight (pstate s) = Some 0 \<and> (\<forall>r. t0 \<noteq> TaskFinished r)"
  using assms by (cases t0) (auto simp: started_def)

lemma started_hit:
  assumes m0: "\<not> truthy (getCachedToken \<lparr> cache = c0, inFlight = None :: unit option, sent = [] \<rparr>
                          (now C w))"
    and s: "started c0 t0 s" and m: "inFlight (pstate s) \<noteq> None"
    and hit: "truthy (getCachedToken (pstate s) (now C w))"
  shows "t0 = TaskSettled (Inr (the (getCachedToken (pstate s) (now C w))))"
proof -
  from s have tf: "task_facts c0 (pstate s) t0" by (simp add: started_def)
  from hit miss_initial[OF m0, of "pstate s"] have nc: "cache (pstate s) \<noteq> c0" by blast
  from tf nc m obtain t where t0: "t0 = TaskSettled (Inr t)"
    and "\<exists>x. cache (pstate s) = Some \<lparr>token = t, expiresAt = x\<rparr>"
    by (cases t0; cases "case t0 of TaskSettled r \<Rightarrow> r | TaskFinished r \<Rightarrow> r | _ \<Rightarrow> Inl FetchRequired")
       auto
  with hit show ?thesis
    by (auto simp: getCachedToken_def truthy_def split: if_splits)
qed

lemma resume_started:
  assumes mi: "misses C options c0 (world s)"
    and s: "started c0 t0 s" and m: "inFlight (pstate s) \<noteq> None"
  shows "started c0 t0 (resume C P options c s)"
proof -
  obtain fb w1 where f: "resolveFallbackToken C options (world s) = (Inr fb, w1)"
    and n: "\<not> truthy fb"
    and mc: "\<not> truthy (getCachedToken \<lparr> cache = c0, inFlight = None :: unit option, sent = [] \<rparr>
                        (now C w1))"
    by (rule missesD[OF mi])
  from started_inFlight[OF s m] have m0: "inFlight (pstate s) = Some 0"
    and nfin: "\<forall>r. t0 \<noteq> TaskFinished r" by simp_all
  from s have cf: "\<And>c'. caller_facts t0 (callers s c')" by (simp add: started_def)
  show ?thesis
  proof (cases "truthy (getCachedToken (pstate s) (now C w1))")
    case True
    let ?t = "the (getCachedToken (pstate s) (now C w1))"
    from started_hit[OF mc s m True] have t0: "t0 = TaskSettled (Inr ?t)" .
    have r: "resume C P options c s =
               s\<lparr>callers := (callers s)(c \<mapsto> Returned (Inr ?t)), world := w1\<rparr>"
      using f n True by (simp add: resume_def Let_def)
    have "caller_facts t0 (((callers s)(c \<mapsto> Returned (Inr ?t))) c')" for c'
      using cf[of c'] t0 by auto
    with s show ?thesis unfolding r started_def by simp
  next
    case False
    have r: "resume C P options c s =
               s\<lparr>callers := (callers s)(c \<mapsto> AwaitInFlight 0), world := w1\<rparr>"
      using f n False m0 by (simp add: resume_def Let_def)
    have "caller_facts t0 (((callers s)(c \<mapsto> AwaitInFlight 0)) c')" for c'
      using cf[of c'] nfin by auto
    with s show ?thesis unfolding r started_def by simp
  qed
qed

lemma caller_facts_progress:
  assumes "caller_facts t0 co" and "\<forall>r. t0 \<noteq> TaskSettled r" and "\<forall>r. t0 \<noteq> TaskFinished r"
    and "\<forall>r. t1 \<noteq> TaskFinished r"
  shows "caller_facts t1 co"
  using assms by (cases "(t0, co)" rule: caller_facts.cases) auto

lemma advance_other:
  assumes "tasks s p = None"
  shows "advance C P options p s = s"
  using assms by (simp add: advance_def)

lemma advance_started:
  assumes s: "started c0 t0 s"
  shows "\<exists>t1. started c0 t1 (advance C P options p s) \<and>
              inFlight (pstate (advance C P options p s)) = inFlight (pstate s)"
proof (cases "p = 0")
  case False
  with s have "tasks s p = None" by (simp add: started_def)
  from advance_other[OF this] s show ?thesis by auto
next
  case True
  from s have ts: "tasks s = [0 \<mapsto> t0]" and nt: "next_task s = 1"
    and tf: "task_facts c0 (pstate s) t0"
    and cf: "\<And>c. caller_facts t0 (callers s c)"
    by (simp_all add: started_def)
  show ?thesis
  proof (cases t0)
    case AwaitCredentials
    obtain r w1 where pr: "prepareRequest C P options (world s) = (r, w1)" by force
    show ?thesis
    proof (cases r)
      case (Inl e)
      have a: "advance C P options p s = s\<lparr>tasks := [0 \<mapsto> TaskSettled (Inl e)], world := w1\<rparr>"
        using True ts AwaitCredentials pr Inl by (simp add: advance_def)
      have "caller_facts (TaskSettled (Inl e)) (callers s c)" for c
        using caller_facts_progress[OF cf[of c]] AwaitCredentials by simp
      with tf nt AwaitCredentials have "started c0 (TaskSettled (Inl e)) (advance C P options p s)"
        unfolding a started_def by simp
      then show ?thesis unfolding a by auto
    next
      case (Inr req)
      have a: "advance C P options p s =
                 s\<lparr>pstate := (pstate s)\<lparr>sent := req # sent (pstate s)\<rparr>,
                   tasks := [0 \<mapsto> AwaitFetch req], world := w1\<rparr>"
        using True ts AwaitCredentials pr Inr by (simp add: advance_def)
      have "caller_facts (AwaitFetch req) (callers s c)" for c
        using caller_facts_progress[OF cf[of c]] AwaitCredentials by simp
      with tf nt AwaitCredentials have "started c0 (AwaitFetch req) (advance C P options p s)"
        unfolding a started_def by simp
      then show ?thesis unfolding a by auto
    qed
  next
    case (AwaitFetch req)
    show ?thesis
    proof (cases "fetchImpl P")
      case None
      with True ts AwaitFetch have "advance C P options p s = s" by (simp add: advance_def)
      with s show ?thesis by auto
    next
      case (Some fetchFn)
      obtain r w2 where fr: "fetchFn req (world s) = (r, w2)" by force
      show ?thesis
      proof (cases r)
        case (Inl e)
        have a: "advance C P options p s = s\<lparr>tasks := [0 \<mapsto> TaskSettled (Inl e)], world := w2\<rparr>"
          using True ts AwaitFetch Some fr Inl by (simp add: advance_def)
        have "caller_facts (TaskSettled (Inl e)) (callers s c)" for c
          using caller_facts_progress[OF cf[of c]] AwaitFetch by simp
        with tf nt AwaitFetch have "started c0 (TaskSettled (Inl e)) (advance C P options p s)"
          unfolding a started_def by simp
        then show ?thesis unfolding a by auto
      next
        case (Inr resp)
        have a: "advance C P options p s = s\<lparr>tasks := [0 \<mapsto> AwaitBody resp], world := w2\<rparr>"
          using True ts AwaitFetch Some fr Inr by (simp add: advance_def)
        have "caller_facts (AwaitBody resp) (callers s c)" for c
          using caller_facts_progress[OF cf[of c]] AwaitFetch by simp
        with tf nt AwaitFetch have "started c0 (AwaitBody resp) (advance C P options p s)"
          unfolding a started_def by simp
        then show ?thesis unfolding a by auto
      qed
    qed
  next
    case (AwaitBody resp)
    show ?thesis
    proof (cases "readResponse P (now C (world s)) resp")
      case (Inl e)
      have a: "advance C P options p s = s\<lparr>tasks := [0 \<mapsto> TaskSettled (Inl e)]\<rparr>"
        using True ts AwaitBody Inl by (simp add: advance_def)
      have "caller_facts (TaskSettled (Inl e)) (callers s c)" for c
        using caller_facts_progress[OF cf[of c]] AwaitBody by simp
      with tf nt AwaitBody have "started c0 (TaskSettled (Inl e)) (advance C P options p s)"
        unfolding a started_def by simp
      then show ?thesis unfolding a by auto
    next
      case (Inr entry)
      have a: "advance C P options p s =
                 s\<lparr>pstate := (pstate s)\<lparr>cache := Some entry\<rparr>,
                   tasks := [0 \<mapsto> TaskSettled (Inr (token entry))]\<rparr>"
        using True ts AwaitBody Inr by (simp add: advance_def)
      have "caller_facts (TaskSettled (Inr (token entry))) (callers s c)" for c
        using caller_facts_progress[OF cf[of c]] AwaitBody by simp
      moreover have "\<exists>x. entry = \<lparr>token = token entry, expiresAt = x\<rparr>"
        by (rule exI[of _ "expiresAt entry"]) simp
      ultimately have "started c0 (TaskSettled (Inr (token entry))) (advance C P options p s)"
        using tf nt AwaitBody unfolding a started_def by simp
      then show ?thesis unfolding a by auto
    qed
  next
    case (TaskSettled r)
    with True ts have "advance C P options p s = s" by (simp add: advance_def)
    with s show ?thesis by auto
  next
    case (TaskFinished r)
    with True ts have "advance C P options p s = s" by (simp add: advance_def)
    with s show ?thesis by auto
  qed
qed

lemma outcome_facts_inFlight:
  "outcome_facts c0 (ps\<lparr>inFlight := m\<rparr>) r = outcome_facts c0 ps r"
  by (cases r) simp_all

lemma finally_started:
  assumes s: "started c0 t0 s"
  shows "\<exists>t1. started c0 t1 (runFinally p s)"
proof (cases "\<exists>r. tasks s p = Some (TaskSettled r)")
  case False
  then have "runFinally p s = s"
    by (simp add: runFinally_def split: option.splits task.splits)
  with s show ?thesis by auto
next
  case True
  then obtain r where r: "tasks s p = Some (TaskSettled r)" by blast
  from s have ts: "tasks s = [0 \<mapsto> t0]" and nt: "next_task s = 1"
    and tf: "task_facts c0 (pstate s) t0"
    and cf: "\<And>c. caller_facts t0 (callers s c)"
    by (simp_all add: started_def)
  from r ts have p: "p = 0" and t0: "t0 = TaskSettled r"
    by (auto split: if_splits)
  have a: "runFinally p s =
             s\<lparr>pstate := (pstate s)\<lparr>inFlight := None\<rparr>,
               tasks := [0 \<mapsto> TaskFinished r],
               callers := (\<lambda>c. if callers s c = Some (AwaitInFlight 0) then Some (Returned r)
                                else callers s c)\<rparr>"
    using r ts p by (simp add: runFinally_def)
  have "caller_facts (TaskFinished r)
          (if callers s c = Some (AwaitInFlight 0) then Some (Returned r) else callers s c)" for c
    using cf[of c] t0 by (cases "(t0, callers s c)" rule: caller_facts.cases) auto
  with tf nt t0 have "started c0 (TaskFinished r) (runFinally p s)"
    unfolding a started_def by (simp add: outcome_facts_inFlight)
  then show ?thesis by blast
qed

lemma not_started_advance: "not_started c0 s \<Longrightarrow> advance C P options p s = s"
  by (simp add: not_started_def advance_def)

lemma not_started_finally: "not_started c0 s \<Longrightarrow> runFinally p s = s"
  by (simp add: not_started_def runFinally_def)

lemma not_started_other:
  "not_started c0 s \<Longrightarrow> not_started c0 (s\<lparr>callers := (callers s)(c \<mapsto> AwaitFallback)\<rparr>)"
  "not_started c0 s \<Longrightarrow> not_started c0 (s\<lparr>world := w\<rparr>)"
  by (simp_all add: not_started_def)

lemma started_other:
  "started c0 t0 s \<Longrightarrow> callers s c = None \<Longrightarrow>
     started c0 t0 (s\<lparr>callers := (callers s)(c \<mapsto> AwaitFallback)\<rparr>)"
  "started c0 t0 s \<Longrightarrow> started c0 t0 (s\<lparr>world := w\<rparr>)"
  by (simp_all add: started_def)

lemma started_marker:
  assumes "started c0 t0 s" and "\<forall>r. t0 \<noteq> TaskFinished r"
  shows "inFlight (pstate s) = Some 0"
  using assms by (cases t0) (auto simp: started_def)

lemma startTask_not_finished: "\<forall>r. startTask P \<noteq> TaskFinished r"
  by (simp add: startTask_def split: option.splits)

lemma one_refresh_resume:
  assumes mi: "misses C options c0 (world s)"
    and o: "one_refresh c0 s" and j: "joinable s"
  shows "one_refresh c0 (resume C P options c s) \<and> joinable (resume C P options c s)"
proof (cases "not_started c0 s")
  case True
  from resume_not_started[OF mi True, of P c]
  have s': "started c0 (startTask P) (resume C P options c s)" .
  from started_marker[OF s' startTask_not_finished] s' show ?thesis
    by (auto simp: one_refresh_def joinable_def)
next
  case False
  with o obtain t0 where s: "started c0 t0 s" by (auto simp: one_refresh_def)
  then have "next_task s = 1" by (simp add: started_def)
  with j have m: "inFlight (pstate s) \<noteq> None" by (simp add: joinable_def)
  from resume_started[OF mi s m, of P c]
  have s': "started c0 t0 (resume C P options c s)" .
  from started_inFlight[OF s m] have "\<forall>r. t0 \<noteq> TaskFinished r" by simp
  from started_marker[OF s' this] s' show ?thesis
    by (auto simp: one_refresh_def joinable_def)
qed

lemma one_refresh_advance:
  assumes o: "one_refresh c0 s"
  shows "one_refresh c0 (advance C P options p s) \<and>
         (joinable s \<longrightarrow> joinable (advance C P options p s))"
proof (cases "not_started c0 s")
  case True
  from not_started_advance[OF True, of C P options p] o show ?thesis by simp
next
  case False
  with o obtain t0 where s: "started c0 t0 s" by (auto simp: one_refresh_def)
  from advance_started[OF s, of C P options p]
  obtain t1 where s': "started c0 t1 (advance C P options p s)"
    and m: "inFlight (pstate (advance C P options p s)) = inFlight (pstate s)" by blast
  from s s' have "next_task (advance C P options p s) = next_task s"
    by (simp add: started_def)
  with m s' show ?thesis by (auto simp: one_refresh_def joinable_def)
qed

lemma one_refresh_finally:
  assumes o: "one_refresh c0 s"
  shows "one_refresh c0 (runFinally p s)"
proof (cases "not_started c0 s")
  case True
  from not_started_finally[OF True, of p] o show ?thesis by simp
next
  case False
  with o obtain t0 where s: "started c0 t0 s" by (auto simp: one_refresh_def)
  from finally_started[OF s, of p] show ?thesis by (auto simp: one_refresh_def)
qed

lemma one_refresh_invoke:
  assumes o: "one_refresh c0 s"
  shows "one_refresh c0 (step C P options (Invoke c) s) \<and>
         (joinable s \<longrightarrow> joinable (step C P options (Invoke c) s))"
proof (cases "callers s c = None")
  case False
  then have "step C P options (Invoke c) s = s" by auto
  with o show ?thesis by simp
next
  case True
  have j: "joinable (s\<lparr>callers := (callers s)(c \<mapsto> AwaitFallback)\<rparr>) = joinable s"
    by (simp add: joinable_def)
  from o show ?thesis
  proof (cases "not_started c0 s")
    case ns: True
    from not_started_other(1)[OF ns, of c] True j show ?thesis
      by (simp add: one_refresh_def)
  next
    case False
    with o obtain t0 where s: "started c0 t0 s" by (auto simp: one_refresh_def)
    from started_other(1)[OF s True] True j show ?thesis
      by (auto simp: one_refresh_def)
  qed
qed

lemma one_refresh_environment:
  assumes o: "one_refresh c0 s"
  shows "one_refresh c0 (step C P options (Environment g) s) \<and>
         (joinable s \<longrightarrow> joinable (step C P options (Environment g) s))"
proof -
  have j: "joinable (s\<lparr>world := g (world s)\<rparr>) = joinable s"
    by (simp add: joinable_def)
  from o not_started_other(2)[of c0 s "g (world s)"] started_other(2)[of c0 _ s "g (world s)"] j
  show ?thesis by (auto simp: one_refresh_def)
qed

lemma step_joinable:
  assumes fn: "finds_nothing C options c0 e s"
    and o: "one_refresh c0 s" and j: "joinable s" and e: "\<not> is_Finally e"
  shows "one_refresh c0 (step C P options e s) \<and> joinable (step C P options e s)"
proof (cases e)
  case (Invoke c)
  with one_refresh_invoke[OF o, of C P options c] j show ?thesis by simp
next
  case (Resume c)
  show ?thesis
  proof (cases "callers s c = Some AwaitFallback")
    case True
    with fn Resume have "misses C options c0 (world s)" by (simp add: finds_nothing_def)
    from one_refresh_resume[OF this o j, of P c] True Resume show ?thesis by simp
  next
    case False
    with Resume o j show ?thesis by simp
  qed
next
  case (Advance p)
  with one_refresh_advance[OF o, of C P options p] j show ?thesis by simp
next
  case (Finally p)
  with e show ?thesis by simp
next
  case (Environment g)
  with one_refresh_environment[OF o, of C P options g] j show ?thesis by simp
qed

lemma step_settling:
  assumes o: "one_refresh c0 s" and e: "\<not> is_Resume e"
  shows "one_refresh c0 (step C P options e s)"
proof (cases e)
  case (Invoke c)
  with one_refresh_invoke[OF o, of C P options c] show ?thesis by simp
next
  case (Resume c)
  with e show ?thesis by simp
next
  case (Advance p)
  with one_refresh_advance[OF o, of C P options p] show ?thesis by simp
next
  case (Finally p)
  with one_refresh_finally[OF o, of p] show ?thesis by simp
next
  case (Environment g)
  with one_refresh_environment[OF o, of C P options g] show ?thesis by simp
qed

lemma run_settling:
  assumes "one_refresh c0 s" and "list_all (\<lambda>e. \<not> is_Resume e) es"
  shows "one_refresh c0 (run C P options es s)"
  using assms unfolding run_def
  by (induction es arbitrary: s) (simp_all add: step_settling)

lemma run_concurrent:
  assumes "uncached C P options c0 es s"
    and "one_refresh c0 s" and "joinable s" and "concurrent es"
  shows "one_refresh c0 (run C P options es s)"
  using assms
proof (induction es arbitrary: s)
  case Nil
  then show ?case by (simp add: run_def)
next
  case (Cons e es)
  show ?case
  proof (cases "is_Finally e")
    case True
    with Cons.prems(4) have "list_all (\<lambda>e'. \<not> is_Resume e') es" by simp
    moreover from True have "\<not> is_Resume e" by (cases e) simp_all
    ultimately have "list_all (\<lambda>e'. \<not> is_Resume e') (e # es)" by simp
    from run_settling[OF Cons.prems(2) this] show ?thesis .
  next
    case False
    with Cons.prems(4) have c: "concurrent es" by simp
    from Cons.prems(1) have fn: "finds_nothing C options c0 e s"
      and u: "uncached C P options c0 es (step C P options e s)"
      by (simp_all add: uncached_def)
    from step_joinable[OF fn Cons.prems(2,3) False, of P]
    have "one_refresh c0 (step C P options e s)" and "joinable (step C P options e s)"
      by simp_all
    from Cons.IH[OF u this c] show ?thesis by (simp add: run_def)
  qed
qed

lemma initial_one_refresh: "one_refresh c0 (initial_config c0 w) \<and> joinable (initial_config c0 w)"
  by (simp add: one_refresh_def not_started_def joinable_def initial_config_def)

lemma task_facts_sent: "task_facts c0 ps t0 \<Longrightarrow> length (sent ps) \<le> 1"
  by (cases t0; cases "case t0 of TaskSettled r \<Rightarrow> r | TaskFinished r \<Rightarrow> r | _ \<Rightarrow> Inl FetchRequired")
     auto

lemma one_refresh_sent: "one_refresh c0 s \<Longrightarrow> length (sent (pstate s)) \<le> 1"
  by (auto simp: one_refresh_def not_started_def started_def dest: task_facts_sent)

lemma one_refresh_agree:
  assumes "one_refresh c0 s" and "callers s c = Some (Returned r)"
    and "callers s c' = Some (Returned r')"
  shows "r = r'"
proof (cases "not_started c0 s")
  case True
  with assms(2) show ?thesis by (auto simp: not_started_def dest!: spec[of _ c])
next
  case False
  with assms(1) obtain t0 where s: "started c0 t0 s" by (auto simp: one_refresh_def)
  then have "caller_facts t0 (callers s c)" and "caller_facts t0 (callers s c')"
    by (simp_all add: started_def)
  with assms(2,3) show ?thesis by auto
qed

lemma one_refresh_token:
  assumes "one_refresh c0 s" and "callers s c = Some (Returned (Inr t))"
  shows "length (sent (pstate s)) = 1"
proof (cases "not_started c0 s")
  case True
  with assms(2) show ?thesis by (auto simp: not_started_def dest!: spec[of _ c])
next
  case False
  with assms(1) obtain t0 where s: "started c0 t0 s" by (auto simp: one_refresh_def)
  then have "caller_facts t0 (callers s c)" and "task_facts c0 (pstate s) t0"
    by (simp_all add: started_def)
  with assms(2) show ?thesis by auto
qed

subsection \<open>The refresh runs to its end\<close>

lemma advance_progress:
  assumes s: "started c0 t0 s" and k: "transport_known P s"
  shows "\<exists>t1. started c0 t1 (advance C P options 0 s) \<and> remaining t1 \<le> remaining t0 - 1 \<and>
              callers (advance C P options 0 s) = callers s"
proof -
  from s have ts: "tasks s = [0 \<mapsto> t0]" by (simp add: started_def)
  from advance_started[OF s, of C P options 0]
  obtain t1 where s1: "started c0 t1 (advance C P options 0 s)" by blast
  then have ts1: "tasks (advance C P options 0 s) = [0 \<mapsto> t1]" by (simp add: started_def)
  have "tasks (advance C P options 0 s) 0 = Some t1" using ts1 by simp
  moreover have "tasks s 0 = Some t0" using ts by simp
  moreover from k ts have "(t0 = AwaitCredentials \<or> (\<exists>req. t0 = AwaitFetch req)) \<longrightarrow> fetchImpl P \<noteq> None"
    by (auto simp: transport_known_def)
  ultimately have "remaining t1 \<le> remaining t0 - 1"
    by (cases t0)
       (auto simp: advance_def split: prod.splits sum.splits option.splits)
  moreover have "callers (advance C P options 0 s) = callers s"
    by (auto simp: advance_def split: prod.splits sum.splits option.splits task.splits)
  ultimately show ?thesis using s1 by blast
qed

lemma settle_started:
  assumes s: "started c0 t0 s" and k: "transport_known P s"
  shows "\<exists>r. started c0 (TaskFinished r) (run C P options settle s) \<and>
             (\<forall>c. resumed s c \<longrightarrow> resumed (run C P options settle s) c)"
proof -
  let ?a = "advance C P options 0"
  from advance_progress[OF s k, of C options]
  obtain t1 where s1: "started c0 t1 (?a s)" and r1: "remaining t1 \<le> 2"
    and c1: "callers (?a s) = callers s"
    by (cases t0) auto
  have k1: "transport_known P (?a s)"
    using transport_known_step[OF k, of C options "Advance 0"] by simp
  from advance_progress[OF s1 k1, of C options] r1
  obtain t2 where s2: "started c0 t2 (?a (?a s))" and r2: "remaining t2 \<le> 1"
    and c2: "callers (?a (?a s)) = callers (?a s)"
    by fastforce
  have k2: "transport_known P (?a (?a s))"
    using transport_known_step[OF k1, of C options "Advance 0"] by simp
  from advance_progress[OF s2 k2, of C options] r2
  obtain t3 where s3: "started c0 t3 (?a (?a (?a s)))" and r3: "remaining t3 = 0"
    and c3: "callers (?a (?a (?a s))) = callers (?a (?a s))"
    by fastforce
  let ?s3 = "?a (?a (?a s))"
  have run: "run C P options settle s = runFinally 0 ?s3"
    by (simp add: run_def settle_def)
  from r3 obtain r where t3: "t3 = TaskSettled r \<or> t3 = TaskFinished r"
    by (cases t3) auto
  from s3 have ts3: "tasks ?s3 = [0 \<mapsto> t3]" by (simp add: started_def)
  have cs: "callers ?s3 = callers s" using c1 c2 c3 by simp
  from t3 show ?thesis
  proof
    assume f: "t3 = TaskFinished r"
    with ts3 have "runFinally 0 ?s3 = ?s3" by (simp add: runFinally_def)
    with s3 f cs show ?thesis unfolding run by (auto simp: resumed_def)
  next
    assume f: "t3 = TaskSettled r"
    from finally_started[OF s3, of 0] obtain t4 where s4: "started c0 t4 (runFinally 0 ?s3)"
      by blast
    from f ts3 have "tasks (runFinally 0 ?s3) = [0 \<mapsto> TaskFinished r]"
      by (simp add: runFinally_def)
    with s4 have "t4 = TaskFinished r" by (auto simp: started_def dest: fun_cong[of _ _ 0])
    moreover have "resumed (runFinally 0 ?s3) c" if "resumed s c" for c
      using that f ts3 cs by (auto simp: resumed_def runFinally_def)
    ultimately show ?thesis using s4 unfolding run by blast
  qed
qed

lemma started_finished_callers:
  assumes "started c0 (TaskFinished r) s" and "resumed s c"
  shows "callers s c = Some (Returned r)"
proof -
  from assms(1) have "caller_facts (TaskFinished r) (callers s c)" by (simp add: started_def)
  with assms(2) show ?thesis
    by (cases "(TaskFinished r, callers s c)" rule: caller_facts.cases)
       (auto simp: resumed_def)
qed

lemma not_started_resumed: "not_started c0 s \<Longrightarrow> \<not> resumed s c"
  by (auto simp: not_started_def resumed_def dest!: spec[of _ c])

lemma settle_returns:
  assumes o: "one_refresh c0 s" and k: "transport_known P s"
  shows "\<exists>r. \<forall>c. resumed s c \<longrightarrow> callers (run C P options settle s) c = Some (Returned r)"
proof (cases "not_started c0 s")
  case True
  with not_started_resumed show ?thesis by blast
next
  case False
  with o obtain t0 where s: "started c0 t0 s" by (auto simp: one_refresh_def)
  from settle_started[OF s k, of C options]
  obtain r where f: "started c0 (TaskFinished r) (run C P options settle s)"
    and m: "\<And>c. resumed s c \<Longrightarrow> resumed (run C P options settle s) c" by blast
  have "callers (run C P options settle s) c = Some (Returned r)" if "resumed s c" for c
    by (rule started_finished_callers[OF f m[OF that]])
  then show ?thesis by blast
qed

lemma run_append: "run C P options (es @ fs) s = run C P options fs (run C P options es s)"
  by (simp add: run_def)

subsection \<open>A refresh that succeeds\<close>

lemma throughout_append:
  "throughout Q f (es @ fs) s = (throughout Q f es s \<and> throughout Q f fs (fold f es s))"
  by (induction es arbitrary: s) simp_all

lemma readResponse_usable:
  "response_usable resp \<Longrightarrow> \<exists>entry. readResponse P t resp = Inr entry"
  by (auto simp: response_usable_def readResponse_def split: sum.splits)

lemma unfailed_resume:
  assumes "unfailed s" and "fetchImpl P \<noteq> None"
  shows "unfailed (resume C P options c s)"
  using assms
  by (auto simp: unfailed_def resume_def Let_def startTask_def
      split: prod.splits sum.splits option.splits)

lemma unfailed_advance:
  assumes u: "unfailed s" and w: "settles_well C P options (Advance p) s"
  shows "unfailed (advance C P options p s)"
proof (cases "tasks s p")
  case None
  with u show ?thesis by (simp add: advance_def)
next
  case (Some t0)
  show ?thesis
  proof (cases t0)
    case AwaitCredentials
    with Some w obtain req w1 where "prepareRequest C P options (world s) = (Inr req, w1)"
      by (auto simp: settles_well_def split: prod.splits sum.splits)
    with Some AwaitCredentials u show ?thesis
      by (auto simp: advance_def unfailed_def)
  next
    case (AwaitFetch req)
    show ?thesis
    proof (cases "fetchImpl P")
      case None
      with Some AwaitFetch u show ?thesis by (simp add: advance_def)
    next
      case f: (Some fetchFn)
      obtain r w2 where a: "fetchFn req (world s) = (r, w2)" by force
      with Some AwaitFetch f w obtain resp where "r = Inr resp" and "response_usable resp"
        by (cases r) (auto simp: settles_well_def)
      with Some AwaitFetch f a u show ?thesis
        by (auto simp: advance_def unfailed_def)
    qed
  next
    case (AwaitBody resp)
    with Some u have "response_usable resp" by (auto simp: unfailed_def)
    from readResponse_usable[OF this, of P "now C (world s)"]
    obtain entry where "readResponse P (now C (world s)) resp = Inr entry" by blast
    with Some AwaitBody u show ?thesis
      by (auto simp: advance_def unfailed_def)
  next
    case (TaskSettled r)
    with Some u show ?thesis by (simp add: advance_def)
  next
    case (TaskFinished r)
    with Some u show ?thesis by (simp add: advance_def)
  qed
qed

lemma unfailed_finally:
  assumes "unfailed s"
  shows "unfailed (runFinally p s)"
proof (cases "\<exists>r. tasks s p = Some (TaskSettled r)")
  case True
  then obtain r where r: "tasks s p = Some (TaskSettled r)" by blast
  with assms have "\<forall>e. r \<noteq> Inl e" by (auto simp: unfailed_def)
  with assms r show ?thesis
    by (auto simp: unfailed_def runFinally_def)
next
  case False
  then have "runFinally p s = s"
    by (simp add: runFinally_def split: option.splits task.splits)
  with assms show ?thesis by simp
qed

lemma unfailed_step:
  assumes u: "unfailed s" and f: "fetchImpl P \<noteq> None" and w: "settles_well C P options e s"
  shows "unfailed (step C P options e s)"
proof (cases e)
  case (Invoke c)
  with u show ?thesis by (simp add: unfailed_def)
next
  case (Resume c)
  with unfailed_resume[OF u f, of C options c] u show ?thesis by simp
next
  case (Advance p)
  with unfailed_advance[OF u] w show ?thesis by simp
next
  case (Finally p)
  with unfailed_finally[OF u, of p] show ?thesis by simp
next
  case (Environment g)
  with u show ?thesis by (simp add: unfailed_def)
qed

lemma unfailed_run:
  assumes "unfailed s" and "fetchImpl P \<noteq> None" and "refresh_succeeds C P options es s"
  shows "unfailed (run C P options es s)"
  using assms(1,3) unfolding run_def refresh_succeeds_def
  by (induction es arbitrary: s) (simp_all add: unfailed_step[OF _ assms(2)])

lemma unfailed_initial: "unfailed (initial_config c w)"
  by (simp add: unfailed_def initial_config_def)

lemma one_refresh_resumed:
  assumes "one_refresh c0 s" and "resumed s c"
  obtains t0 where "started c0 t0 s"
  using assms not_started_resumed[of c0 s c] by (auto simp: one_refresh_def)

subsection \<open>Single flight\<close>

text \<open>
  C1, as amended. In every state that any interleaving of any number of invocations
  reaches, at most one request to the token endpoint is outstanding.

  Let moreover the schedule be concurrent (every invocation reaches \<open>await inFlight\<close>
  before a \<open>finally\<close> callback has run) and uncached (every invocation finds that the
  fallback resolves to nothing usable and that the credential cached before the
  invocations is not valid). Then
  \<^item> at most one request is handed to the transport in total;
  \<^item> any two invocations that have settled have settled alike, with the same token or the
    same error, and if one has returned a token, exactly one request was handed to the
    transport;
  \<^item> once the runtime has let the refresh run to its end, every invocation that had
    passed its fallback has settled, all of them alike.

  Let finally there be a transport and let the refresh succeed: the client id and secret
  resolve to non-empty strings and the endpoint answers with a 2xx status and a non-empty
  \<open>access_token\<close>. Then, for any number of invocations that have passed their fallback,
  at least one, once the refresh has run to its end exactly one request has been handed to
  the transport, and all the invocations have returned one and the same token.
\<close>

theorem single_flight_refresh:
  "(\<forall>p q. outstanding (tasks (run C P options es (initial_config c0 w0)) p) \<and>
           outstanding (tasks (run C P options es (initial_config c0 w0)) q) \<longrightarrow> p = q) \<and>
   (concurrent es \<and> uncached C P options c0 es (initial_config c0 w0) \<longrightarrow>
      length (sent (pstate (run C P options es (initial_config c0 w0)))) \<le> 1 \<and>
      (\<forall>c c' r r'.
         callers (run C P options es (initial_config c0 w0)) c = Some (Returned r) \<and>
         callers (run C P options es (initial_config c0 w0)) c' = Some (Returned r') \<longrightarrow>
         r = r') \<and>
      (\<forall>c t.
         callers (run C P options es (initial_config c0 w0)) c = Some (Returned (Inr t)) \<longrightarrow>
         length (sent (pstate (run C P options es (initial_config c0 w0)))) = 1) \<and>
      (\<exists>r. \<forall>c. resumed (run C P options es (initial_config c0 w0)) c \<longrightarrow>
              callers (run C P options (es @ settle) (initial_config c0 w0)) c
                = Some (Returned r))) \<and>
   (concurrent es \<and> uncached C P options c0 es (initial_config c0 w0) \<and>
    fetchImpl P \<noteq> None \<and> refresh_succeeds C P options (es @ settle) (initial_config c0 w0) \<and>
    (\<exists>c. resumed (run C P options es (initial_config c0 w0)) c) \<longrightarrow>
      length (sent (pstate (run C P options (es @ settle) (initial_config c0 w0)))) = 1 \<and>
      (\<exists>t. \<forall>c. resumed (run C P options es (initial_config c0 w0)) c \<longrightarrow>
              callers (run C P options (es @ settle) (initial_config c0 w0)) c
                = Some (Returned (Inr t))))"
proof -
  let ?i = "initial_config c0 w0"
  let ?s = "run C P options es ?i"
  let ?s' = "run C P options (es @ settle) ?i"
  have k: "transport_known P ?s" by (rule transport_known_run[OF transport_known_initial])
  from initial_one_refresh[of c0 w0]
  have i: "one_refresh c0 ?i" and j: "joinable ?i" by simp_all
  have A: "p = q" if "outstanding (tasks ?s p)" and "outstanding (tasks ?s q)" for p q
    using that by (rule one_outstanding)
  have B: "length (sent (pstate ?s)) \<le> 1 \<and>
      (\<forall>c c' r r'. callers ?s c = Some (Returned r) \<and> callers ?s c' = Some (Returned r') \<longrightarrow> r = r') \<and>
      (\<forall>c t. callers ?s c = Some (Returned (Inr t)) \<longrightarrow> length (sent (pstate ?s)) = 1) \<and>
      (\<exists>r. \<forall>c. resumed ?s c \<longrightarrow> callers ?s' c = Some (Returned r))"
    if co: "concurrent es" and un: "uncached C P options c0 es ?i"
  proof -
    have o: "one_refresh c0 ?s" by (rule run_concurrent[OF un i j co])
    from settle_returns[OF o k, of C options]
    have "\<exists>r. \<forall>c. resumed ?s c \<longrightarrow> callers ?s' c = Some (Returned r)"
      by (simp add: run_append)
    with one_refresh_sent[OF o] one_refresh_agree[OF o] one_refresh_token[OF o]
    show ?thesis by blast
  qed
  have D: "length (sent (pstate ?s')) = 1 \<and>
      (\<exists>t. \<forall>c. resumed ?s c \<longrightarrow> callers ?s' c = Some (Returned (Inr t)))"
    if co: "concurrent es" and un: "uncached C P options c0 es ?i"
      and tr: "fetchImpl P \<noteq> None" and su: "refresh_succeeds C P options (es @ settle) ?i"
      and ex: "\<exists>c. resumed ?s c"
  proof -
    have o: "one_refresh c0 ?s" by (rule run_concurrent[OF un i j co])
    from ex obtain c where "resumed ?s c" by blast
    from one_refresh_resumed[OF o this] obtain t0 where s: "started c0 t0 ?s" .
    from settle_started[OF s k, of C options]
    obtain r where f: "started c0 (TaskFinished r) ?s'"
      and m: "\<And>c. resumed ?s c \<Longrightarrow> resumed ?s' c"
      by (auto simp: run_append)
    have "unfailed ?s'" by (rule unfailed_run[OF unfailed_initial tr su])
    moreover from f have "tasks ?s' 0 = Some (TaskFinished r)" by (simp add: started_def)
    ultimately obtain t where r: "r = Inr t" by (cases r) (auto simp: unfailed_def)
    from f r have "length (sent (pstate ?s')) = 1" by (simp add: started_def)
    moreover have "callers ?s' c = Some (Returned (Inr t))" if "resumed ?s c" for c
      using started_finished_callers[OF f m[OF that]] r by simp
    ultimately show ?thesis by blast
  qed
  from A B D show ?thesis by blast
qed

lemma example_run_value:
  "pstate example_run =
     \<lparr> cache = Some \<lparr> token = ''tok'', expiresAt = 3541125 \<rparr>, inFlight = None,
       sent = [example_request ''id''] \<rparr>"
  "callers example_run 0 = Some (Returned (Inr ''tok''))"
  "callers example_run 1 = Some (Returned (Inr ''tok''))"
  "callers example_run 2 = Some (Returned (Inr ''tok''))"
  by (simp_all add: example_run_def example_schedule_def settle_def run_def resume_def
      advance_def runFinally_def startTask_def initial_config_def Let_def
      provider_defs example_defs)

lemmas machine_defs =
  run_def resume_def advance_def runFinally_def startTask_def initial_config_def Let_def
  uncached_def refresh_succeeds_def finds_nothing_def settles_well_def misses_def
  response_usable_def resumed_def

text \<open>
  Three invocations while the cache holds a credential that has expired, the third one
  joining while the request is on the wire: one request, and the three return its token.
\<close>

theorem single_flight_refresh_witness:
  "concurrent example_schedule \<and>
   uncached example_platform
     (createAlvysAccessTokenProvider (example_options (Some (example_fetch (Some 3600)))) None)
     (example_options (Some (example_fetch (Some 3600)))) (Some expired_credential)
     example_schedule (initial_config (Some expired_credential) 1000) \<and>
   refresh_succeeds example_platform
     (createAlvysAccessTokenProvider (example_options (Some (example_fetch (Some 3600)))) None)
     (example_options (Some (example_fetch (Some 3600))))
     (example_schedule @ settle) (initial_config (Some expired_credential) 1000) \<and>
   resumed (expired_run example_schedule) 0 \<and>
   resumed (expired_run example_schedule) 1 \<and>
   resumed (expired_run example_schedule) 2 \<and>
   sent (pstate (expired_run (example_schedule @ settle))) = [example_request ''id''] \<and>
   callers (expired_run (example_schedule @ settle)) 0 = Some (Returned (Inr ''tok'')) \<and>
   callers (expired_run (example_schedule @ settle)) 1 = Some (Returned (Inr ''tok'')) \<and>
   callers (expired_run (example_schedule @ settle)) 2 = Some (Returned (Inr ''tok''))"
proof -
  let ?O = "example_options (Some (example_fetch (Some 3600)))"
  let ?P = "createAlvysAccessTokenProvider ?O None"
  let ?i = "initial_config (Some expired_credential) (1000::int)"
  have co: "concurrent example_schedule"
    by (simp add: example_schedule_def)
  have un: "uncached example_platform ?P ?O (Some expired_credential) example_schedule ?i"
    by (simp add: example_schedule_def expired_credential_def machine_defs provider_defs
        example_defs)
  have tr: "fetchImpl ?P \<noteq> None"
    by (simp add: provider_defs example_defs)
  have su: "refresh_succeeds example_platform ?P ?O (example_schedule @ settle) ?i"
    by (simp add: example_schedule_def settle_def expired_credential_def machine_defs
        provider_defs example_defs)
  have re: "resumed (expired_run example_schedule) 0" "resumed (expired_run example_schedule) 1"
    "resumed (expired_run example_schedule) 2"
    by (simp_all add: expired_run_def example_schedule_def expired_credential_def machine_defs
        provider_defs example_defs)
  have ex: "\<exists>c. resumed (expired_run example_schedule) c"
    using re(1) by blast
  have va: "sent (pstate (expired_run (example_schedule @ settle))) = [example_request ''id'']"
    "callers (expired_run (example_schedule @ settle)) 0 = Some (Returned (Inr ''tok''))"
    by (simp_all add: expired_run_def example_schedule_def settle_def expired_credential_def
        machine_defs provider_defs example_defs)
  note T = single_flight_refresh[of example_platform ?P ?O example_schedule
      "Some expired_credential" 1000, THEN conjunct2, THEN conjunct2, rule_format,
      folded expired_run_def, OF conjI[OF co conjI[OF un conjI[OF tr conjI[OF su ex]]]]]
  from T[THEN conjunct2] obtain t
    where t: "\<And>c. resumed (expired_run example_schedule) c \<Longrightarrow>
                callers (expired_run (example_schedule @ settle)) c = Some (Returned (Inr t))"
    by blast
  from t[OF re(1)] va(2) have "t = ''tok''" by simp
  with t[OF re(1)] t[OF re(2)] t[OF re(3)] co un su re va(1) show ?thesis by simp
qed

text \<open>
  C1 as it was stated fails where the refresh fails. For a provider without a client id,
  two concurrent invocations with no fallback and an empty cache issue no request at all,
  and both fail. For an endpoint that is down, they issue one request and both fail with
  the error of its answer: neither resolves to a token.
\<close>

theorem single_flight_refresh_counterexample:
  "concurrent [Invoke 0, Invoke 1, Resume 0, Resume 1, Advance 0, Finally 0 :: int event] \<and>
   uncached example_platform (createAlvysAccessTokenProvider anonymous_options None)
     anonymous_options None
     [Invoke 0, Invoke 1, Resume 0, Resume 1, Advance 0, Finally 0] (initial_config None 1000) \<and>
   sent (pstate anonymous_run) = [] \<and>
   callers anonymous_run 0 = Some (Returned (Inl MissingCredentials)) \<and>
   callers anonymous_run 1 = Some (Returned (Inl MissingCredentials)) \<and>
   concurrent refused_schedule \<and>
   uncached example_platform (createAlvysAccessTokenProvider (example_options (Some flaky_fetch)) None)
     (example_options (Some flaky_fetch)) None refused_schedule (initial_config None 1000) \<and>
   sent (pstate refused_run) = [example_request ''id''] \<and>
   callers refused_run 0
     = Some (Returned (Inl (TokenRequestFailed 503 ''Service Unavailable'' ''<no body>''))) \<and>
   callers refused_run 1
     = Some (Returned (Inl (TokenRequestFailed 503 ''Service Unavailable'' ''<no body>'')))"
  by (simp add: anonymous_run_def anonymous_options_def refused_run_def refused_schedule_def
      machine_defs provider_defs example_defs)

subsection \<open>An invocation that runs alone\<close>

text \<open>
  The two descriptions of the provider agree: where no refresh is in flight, the machine
  run on the events of one invocation ends as \<open>getToken\<close> says, in the caller's result,
  the cache, the requests sent, the marker and the world.
\<close>

lemma advance_settled:
  "tasks s p = Some (TaskSettled r) \<Longrightarrow> advance C P options p s = s"
  by (simp add: advance_def)

lemma advance_thrice:
  assumes t: "tasks s p = Some (startTask P)"
    and rt: "requestToken C P options (pstate s, world s) = (r, st', w')"
  shows "advance C P options p (advance C P options p (advance C P options p s)) =
           s\<lparr>pstate := st', tasks := (tasks s)(p \<mapsto> TaskSettled r), world := w'\<rparr>"
proof (cases "fetchImpl P")
  case None
  with t have t': "tasks s p = Some (TaskSettled (Inl FetchRequired))"
    by (simp add: startTask_def)
  from None rt have "r = Inl FetchRequired" and "st' = pstate s" and "w' = world s"
    by (simp_all add: requestToken_def)
  moreover from t' have "(tasks s)(p \<mapsto> TaskSettled (Inl FetchRequired)) = tasks s"
    by (simp add: fun_upd_idem_iff)
  ultimately show ?thesis by (simp add: advance_settled[OF t'])
next
  case (Some fetchFn)
  with t have t': "tasks s p = Some AwaitCredentials" by (simp add: startTask_def)
  obtain r1 w1 where pr: "prepareRequest C P options (world s) = (r1, w1)" by force
  show ?thesis
  proof (cases r1)
    case (Inl e)
    let ?s1 = "s\<lparr>tasks := (tasks s)(p \<mapsto> TaskSettled (Inl e)), world := w1\<rparr>"
    have a1: "advance C P options p s = ?s1"
      using t' pr Inl by (simp add: advance_def)
    have "tasks ?s1 p = Some (TaskSettled (Inl e))" by simp
    note a2 = advance_settled[OF this, of C P options]
    from Some pr Inl rt have "r = Inl e" and "st' = pstate s" and "w' = w1"
      by (simp_all add: requestToken_def)
    then show ?thesis by (simp add: a1 advance_settled)
  next
    case (Inr req)
    let ?s1 = "s\<lparr>pstate := (pstate s)\<lparr>sent := req # sent (pstate s)\<rparr>,
                 tasks := (tasks s)(p \<mapsto> AwaitFetch req), world := w1\<rparr>"
    have a1: "advance C P options p s = ?s1"
      using t' pr Inr by (simp add: advance_def)
    obtain r2 w2 where fr: "fetchFn req w1 = (r2, w2)" by force
    show ?thesis
    proof (cases r2)
      case (Inl e)
      let ?s2 = "?s1\<lparr>tasks := (tasks ?s1)(p \<mapsto> TaskSettled (Inl e)), world := w2\<rparr>"
      have a2: "advance C P options p ?s1 = ?s2"
        using Some fr Inl by (simp add: advance_def)
      have "tasks ?s2 p = Some (TaskSettled (Inl e))" by simp
      note a3 = advance_settled[OF this, of C P options]
      from Some pr \<open>r1 = Inr req\<close> fr Inl rt
      have "r = Inl e" and "st' = (pstate s)\<lparr>sent := req # sent (pstate s)\<rparr>" and "w' = w2"
        by (simp_all add: requestToken_def)
      then show ?thesis by (simp add: a1 a2 advance_settled)
    next
      case (Inr resp)
      let ?s2 = "s\<lparr>pstate := (pstate s)\<lparr>sent := req # sent (pstate s)\<rparr>,
                   tasks := (tasks s)(p \<mapsto> AwaitBody resp), world := w2\<rparr>"
      have a2: "advance C P options p ?s1 = ?s2"
        using Some fr Inr by (simp add: advance_def)
      show ?thesis
      proof (cases "readResponse P (now C w2) resp")
        case (Inl e)
        have a3: "advance C P options p ?s2 =
                    s\<lparr>pstate := (pstate s)\<lparr>sent := req # sent (pstate s)\<rparr>,
                      tasks := (tasks s)(p \<mapsto> TaskSettled (Inl e)), world := w2\<rparr>"
          using Inl by (simp add: advance_def)
        from Some pr \<open>r1 = Inr req\<close> fr \<open>r2 = Inr resp\<close> Inl rt
        have "r = Inl e" and "st' = (pstate s)\<lparr>sent := req # sent (pstate s)\<rparr>" and "w' = w2"
          by (simp_all add: requestToken_def)
        then show ?thesis by (simp add: a1 a2 a3)
      next
        case (Inr entry)
        have a3: "advance C P options p ?s2 =
                    s\<lparr>pstate := (pstate s)\<lparr>sent := req # sent (pstate s), cache := Some entry\<rparr>,
                      tasks := (tasks s)(p \<mapsto> TaskSettled (Inr (token entry))), world := w2\<rparr>"
          using Inr by (simp add: advance_def)
        from Some pr \<open>r1 = Inr req\<close> fr \<open>r2 = Inr resp\<close> Inr rt
        have "r = Inr (token entry)"
          and "st' = (pstate s)\<lparr>sent := req # sent (pstate s), cache := Some entry\<rparr>"
          and "w' = w2"
          by (simp_all add: requestToken_def)
        then show ?thesis by (simp add: a1 a2 a3)
      qed
    qed
  qed
qed

lemma requestToken_alone:
  assumes "requestToken C P options (st, w) = (r, st', w')"
  shows "requestToken C P options (\<lparr>cache = cache st, inFlight = m, sent = sent st\<rparr>, w) =
           (r, \<lparr>cache = cache st', inFlight = m, sent = sent st'\<rparr>, w')"
  using assms
  by (auto simp: requestToken_def split: option.splits prod.splits sum.splits)

lemma runFinally_none: "tasks s p = None \<Longrightarrow> runFinally p s = s"
  by (simp add: runFinally_def)

lemma run_sequential:
  assumes fresh: "callers s c = None" and idle: "inFlight (pstate s) = None"
    and unused: "tasks s (next_task s) = None"
    and g: "getToken C P options (alone (pstate s), world s) = (r, st', w')"
  shows "callers (run C P options (sequential c (next_task s)) s) c = map_option Returned r \<and>
         alone (pstate (run C P options (sequential c (next_task s)) s)) = st' \<and>
         inFlight (pstate (run C P options (sequential c (next_task s)) s)) = None \<and>
         world (run C P options (sequential c (next_task s)) s) = w'"
proof -
  let ?n = "next_task s"
  let ?a = "advance C P options ?n"
  let ?s1 = "s\<lparr>callers := (callers s)(c \<mapsto> AwaitFallback)\<rparr>"
  have run: "run C P options (sequential c ?n) s =
               runFinally ?n (?a (?a (?a (resume C P options c ?s1))))"
    using fresh by (simp add: run_def sequential_def)
  obtain rf w1 where f: "resolveFallbackToken C options (world s) = (rf, w1)" by force
  have quiet: "runFinally ?n (?a (?a (?a s2))) = s2" if "tasks s2 ?n = None" for s2
    using that by (simp add: advance_other runFinally_none)
  consider (threw) e where "rf = Inl e"
    | (fallback) fb where "rf = Inr fb" and "truthy fb"
    | (cached) fb where "rf = Inr fb" and "\<not> truthy fb"
        and "truthy (getCachedToken (pstate s) (now C w1))"
    | (refresh) fb where "rf = Inr fb" and "\<not> truthy fb"
        and "\<not> truthy (getCachedToken (pstate s) (now C w1))"
    by (cases rf) auto
  then show ?thesis
  proof cases
    case threw
    let ?s2 = "s\<lparr>callers := (callers s)(c \<mapsto> Returned (Inl e)), world := w1\<rparr>"
    have "resume C P options c ?s1 = ?s2"
      using f threw by (simp add: resume_def)
    moreover have "tasks ?s2 ?n = None" using unused by simp
    ultimately have "run C P options (sequential c ?n) s = ?s2"
      using quiet[of ?s2] run by simp
    moreover from g f threw have "r = Some (Inl e)" and "st' = alone (pstate s)" and "w' = w1"
      by (auto simp: getToken_def)
    ultimately show ?thesis using idle by (simp add: alone_def)
  next
    case fallback
    let ?s2 = "s\<lparr>callers := (callers s)(c \<mapsto> Returned (Inr (the fb))), world := w1\<rparr>"
    have "resume C P options c ?s1 = ?s2"
      using f fallback by (simp add: resume_def)
    moreover have "tasks ?s2 ?n = None" using unused by simp
    ultimately have "run C P options (sequential c ?n) s = ?s2"
      using quiet[of ?s2] run by simp
    moreover from g f fallback
    have "r = Some (Inr (the fb))" and "st' = alone (pstate s)" and "w' = w1"
      by (auto simp: getToken_def)
    ultimately show ?thesis using idle by (simp add: alone_def)
  next
    case cached
    have same: "getCachedToken (alone (pstate s)) t = getCachedToken (pstate s) t" for t
      by (simp add: getCachedToken_def alone_def)
    let ?t = "the (getCachedToken (pstate s) (now C w1))"
    let ?s2 = "s\<lparr>callers := (callers s)(c \<mapsto> Returned (Inr ?t)), world := w1\<rparr>"
    have "resume C P options c ?s1 = ?s2"
      using f cached by (simp add: resume_def Let_def)
    moreover have "tasks ?s2 ?n = None" using unused by simp
    ultimately have "run C P options (sequential c ?n) s = ?s2"
      using quiet[of ?s2] run by simp
    moreover from g f cached
    have "r = Some (Inr ?t)" and "st' = alone (pstate s)" and "w' = w1"
      by (auto simp: getToken_def Let_def same)
    ultimately show ?thesis using idle by (simp add: alone_def)
  next
    case refresh
    have same: "getCachedToken (alone (pstate s)) t = getCachedToken (pstate s) t" for t
      by (simp add: getCachedToken_def alone_def)
    let ?s2 = "s\<lparr>pstate := (pstate s)\<lparr>inFlight := Some ?n\<rparr>,
                 tasks := (tasks s)(?n \<mapsto> startTask P),
                 next_task := Suc ?n,
                 callers := (callers s)(c \<mapsto> AwaitInFlight ?n),
                 world := w1\<rparr>"
    have r2: "resume C P options c ?s1 = ?s2"
      using f refresh idle by (simp add: resume_def Let_def)
    obtain x st2 w2
      where rt: "requestToken C P options ((pstate s)\<lparr>inFlight := Some ?n\<rparr>, w1) = (x, st2, w2)"
      by (metis prod_cases3)
    have t2: "tasks ?s2 ?n = Some (startTask P)" by simp
    have rt2: "requestToken C P options (pstate ?s2, world ?s2) = (x, st2, w2)"
      using rt by simp
    let ?s5 = "s\<lparr>pstate := st2,
                 tasks := (tasks s)(?n \<mapsto> TaskSettled x),
                 next_task := Suc ?n,
                 callers := (callers s)(c \<mapsto> AwaitInFlight ?n),
                 world := w2\<rparr>"
    have a: "?a (?a (?a ?s2)) = ?s5"
      using advance_thrice[OF t2 rt2] by simp
    have fin: "runFinally ?n ?s5 =
                 ?s5\<lparr>pstate := st2\<lparr>inFlight := None\<rparr>,
                     tasks := (tasks ?s5)(?n \<mapsto> TaskFinished x),
                     callers := (\<lambda>c'. if callers ?s5 c' = Some (AwaitInFlight ?n)
                                       then Some (Returned x) else callers ?s5 c')\<rparr>"
      by (simp add: runFinally_def)
    have alone2: "(alone (pstate s))\<lparr>inFlight := Some ()\<rparr> =
                    \<lparr>cache = cache ((pstate s)\<lparr>inFlight := Some ?n\<rparr>), inFlight = Some (),
                     sent = sent ((pstate s)\<lparr>inFlight := Some ?n\<rparr>)\<rparr>"
      by (simp add: alone_def)
    from requestToken_alone[OF rt, of "Some ()"]
    have rq: "requestToken C P options ((alone (pstate s))\<lparr>inFlight := Some ()\<rparr>, w1) =
            (x, \<lparr>cache = cache st2, inFlight = Some (), sent = sent st2\<rparr>, w2)"
      unfolding alone2 .
    have nf: "inFlight (alone (pstate s)) = None" by (simp add: alone_def)
    from f refresh have f': "resolveFallbackToken C options (world s) = (Inr fb, w1)" by simp
    from refresh have miss: "\<not> truthy (getCachedToken (alone (pstate s)) (now C w1))"
      by (simp add: same)
    from getToken_refresh[OF nf f' refresh(2) miss, of P] g rq
    have "r = Some x" and "st' = alone st2" and "w' = w2"
      by (auto simp: alone_def)
    moreover have "run C P options (sequential c ?n) s = runFinally ?n ?s5"
      using run r2 a by simp
    ultimately show ?thesis by (simp add: fin alone_def)
  qed
qed

section \<open>Tokens are not empty\<close>

lemma readResponse_token: "readResponse P t resp = Inr entry \<Longrightarrow> token entry \<noteq> []"
  by (auto simp: readResponse_def truthy_def split: if_splits sum.splits option.splits)

lemma truthy_the: "truthy v \<Longrightarrow> the v \<noteq> []"
  by (auto simp: truthy_def split: option.splits)

lemma tokens_nonempty_resume:
  assumes "tokens_nonempty s"
  shows "tokens_nonempty (resume C P options c s)"
  using assms
  by (auto simp: tokens_nonempty_def resume_def Let_def startTask_def truthy_the
      split: prod.splits sum.splits option.splits if_splits)

lemma tokens_nonempty_advance:
  assumes "tokens_nonempty s"
  shows "tokens_nonempty (advance C P options p s)"
  using assms
  by (auto simp: tokens_nonempty_def advance_def dest: readResponse_token
      split: prod.splits sum.splits option.splits task.splits if_splits)

lemma tokens_nonempty_finally:
  assumes "tokens_nonempty s"
  shows "tokens_nonempty (runFinally p s)"
proof (cases "\<exists>r. tasks s p = Some (TaskSettled r)")
  case True
  then obtain r where r: "tasks s p = Some (TaskSettled r)" by blast
  with assms have "t \<noteq> []" if "r = Inr t" for t
    using that by (auto simp: tokens_nonempty_def)
  with assms r show ?thesis
    by (auto simp: tokens_nonempty_def runFinally_def split: if_splits)
next
  case False
  then have "runFinally p s = s"
    by (simp add: runFinally_def split: option.splits task.splits)
  with assms show ?thesis by simp
qed

lemma tokens_nonempty_step:
  "tokens_nonempty s \<Longrightarrow> tokens_nonempty (step C P options e s)"
  by (cases e)
     (simp_all add: tokens_nonempty_resume tokens_nonempty_advance tokens_nonempty_finally,
      simp_all add: tokens_nonempty_def)

lemma tokens_nonempty_run:
  "tokens_nonempty s \<Longrightarrow> tokens_nonempty (run C P options es s)"
  unfolding run_def by (induction es arbitrary: s) (simp_all add: tokens_nonempty_step)

lemma tokens_nonempty_initial: "tokens_nonempty (initial_config c w)"
  by (simp add: tokens_nonempty_def initial_config_def)

lemma getToken_nonempty:
  assumes "reachable C P st" and "getToken C P options (st, w) = (Some (Inr t), st', w')"
  shows "t \<noteq> []"
proof -
  from reachable_inv[OF assms(1)] have ok: "cache_ok st" by simp
  obtain r1 w1 where f: "resolveFallbackToken C options w = (r1, w1)" by force
  show ?thesis
  proof (cases r1)
    case (Inl e)
    with f assms(2) show ?thesis by (simp add: getToken_def)
  next
    case (Inr fb)
    show ?thesis
    proof (cases "truthy fb")
      case True
      with f Inr assms(2) show ?thesis
        by (auto simp: getToken_def truthy_def split: option.splits)
    next
      case nf: False
      show ?thesis
      proof (cases "truthy (getCachedToken st (now C w1))")
        case True
        with f Inr nf assms(2) show ?thesis
          by (auto simp: getToken_def truthy_def Let_def split: option.splits)
      next
        case False
        with f Inr nf assms(2) show ?thesis
          by (auto simp: getToken_def Let_def dest!: requestToken_cache
              split: if_splits prod.splits)
      qed
    qed
  qed
qed

text \<open>
  C10. A token that an invocation returns is not the empty string, whether the invocation
  runs alone from a state that invocations have left, or interleaved with any others: the
  fallback is returned only if truthy, the cached token only if truthy, and
  \<open>requestToken\<close> stores and returns the token only after the \<open>access_token\<close> check.
\<close>

theorem nonempty_token:
  "(reachable C P st \<and> getToken C P options (st, w) = (Some (Inr t), st', w') \<longrightarrow> t \<noteq> []) \<and>
   (callers (run C P options es (initial_config c0 w0)) c = Some (Returned (Inr t')) \<longrightarrow> t' \<noteq> [])"
proof -
  have "tokens_nonempty (run C P options es (initial_config c0 w0))"
    by (rule tokens_nonempty_run[OF tokens_nonempty_initial])
  then have "callers (run C P options es (initial_config c0 w0)) c = Some (Returned (Inr t')) \<longrightarrow>
               t' \<noteq> []"
    by (simp add: tokens_nonempty_def)
  with getToken_nonempty[of C P st options w t st' w'] show ?thesis by blast
qed

theorem nonempty_token_witness:
  "reachable example_platform
     (createAlvysAccessTokenProvider (example_options (Some (example_fetch (Some 3600)))) None)
     (initial_state :: unit provider_state) \<and>
   getToken example_platform
     (createAlvysAccessTokenProvider (example_options (Some (example_fetch (Some 3600)))) None)
     (example_options (Some (example_fetch (Some 3600)))) (initial_state, 1000)
   = (Some (Inr ''tok''), cached_state, 1120) \<and>
   callers example_run 2 = Some (Returned (Inr ''tok'')) \<and> ''tok'' \<noteq> []"
proof -
  let ?O = "example_options (Some (example_fetch (Some 3600)))"
  let ?P = "createAlvysAccessTokenProvider ?O None"
  note T = nonempty_token[of example_platform ?P initial_state ?O 1000 "''tok''" cached_state 1120
      "example_schedule @ settle" None 1000 2 "''tok''", folded example_run_def]
  from T reachable_initial[of example_platform ?P] first_call example_run_value(4)
  show ?thesis by blast
qed

end
